theory Spec2Isabelle
  imports Main "HOL-Library.Word"
begin

section \<open>Basic types\<close>

type_synonym byte = "8 word"
type_synonym u64 = "64 word"

text \<open>\<open>thor.Hash\<close> and \<open>thor.Address\<close> are fixed-size byte arrays (32 and 20 bytes). They are
  kept as byte lists; the fixed length is a well-formedness condition where it matters.\<close>

type_synonym hash = "byte list"
type_synonym address = "byte list"

datatype error =
    GasTooLarge    \<comment> \<open>\<open>errors.New("intrinsic gas too large")\<close>\<close>
  | EncodeError    \<comment> \<open>an error returned by \<open>rlp.Encode\<close>\<close>
  | DecodeError    \<comment> \<open>an error returned by \<open>Stream.Decode\<close>\<close>

section \<open>Clauses and transactions\<close>

text \<open>Modelled from the spec: the declaration of \<open>Clause\<close> (tx/clause.go) is not among the
  sources. \<open>transaction.go\<close> reads \<open>c.body.To\<close> (a pointer, \<open>nil\<close> for a contract creation) and
  \<open>c.body.Data\<close>; the spec gives the clause as recipient, data and value.\<close>

record Clause =
  To :: "address option"
  Value :: int
  Data :: "byte list"

text \<open>The struct \<open>body\<close>. The two fields of reference type that accessors copy, \<open>GasPrice\<close>
  (\<open>*big.Int\<close>) and \<open>Signature\<close> (\<open>[]byte\<close>), have a type parameter each: instantiated with the
  values themselves for everything that only reads them, and with addresses into a store where
  aliasing is examined.\<close>

record ('g, 's) body =
  Clauses :: "Clause list"
  GasPrice :: 'g
  Gas :: u64
  Nonce :: u64
  TimeBarrier :: u64
  DependsOn :: "hash option"
  Signature :: 's

record ('g, 's) Transaction =
  body :: "('g, 's) body"
  cache_hash :: "hash option"

type_synonym Tx = "(int, byte list) Transaction"

section \<open>Intrinsic gas\<close>

text \<open>What the computation uses from outside the sources is a parameter: the \<open>uint64\<close>
  constants \<open>params.TxGas\<close> and \<open>params.TxGasContractCreation\<close> of go-ethereum,
  \<open>thor.ClauseGas\<close> and \<open>thor.ClauseGasContractCreation\<close> of package \<open>thor\<close>, and go-ethereum's
  function \<open>core.IntrinsicGas(data, contractCreation, homestead)\<close>, which returns a
  \<open>*big.Int\<close>.\<close>

record schedule =
  TxGas :: u64
  TxGasContractCreation :: u64
  ClauseGas :: u64
  ClauseGasContractCreation :: u64
  core_IntrinsicGas :: "byte list \<Rightarrow> bool \<Rightarrow> bool \<Rightarrow> int"

text \<open>\<open>big.Int.BitLen\<close>: the length in bits of the absolute value. \<open>big.Int.Uint64\<close>: the low
  64 bits of the absolute value.\<close>

fun nat_bitlen :: "nat \<Rightarrow> nat" where
  "nat_bitlen n = (if n = 0 then 0 else Suc (nat_bitlen (n div 2)))"

declare nat_bitlen.simps [simp del]

definition big_BitLen :: "int \<Rightarrow> nat" where
  "big_BitLen x = nat_bitlen (nat \<bar>x\<bar>)"

definition big_Uint64 :: "int \<Rightarrow> u64" where
  "big_Uint64 x = word_of_int \<bar>x\<bar>"

text \<open>The amount subtracted for a clause after the first one. The subtraction is one of
  \<open>uint64\<close> values, done before \<open>SetUint64\<close>.\<close>

definition overpayed :: "schedule \<Rightarrow> bool \<Rightarrow> int" where
  "overpayed P contractCreation =
     (if contractCreation then uint (TxGasContractCreation P - ClauseGasContractCreation P)
      else uint (TxGas P - ClauseGas P))"

text \<open>The body of the loop over \<open>t.body.Clauses[1:]\<close>, and the loop. The variable \<open>total\<close>
  of the source is \<open>tot\<close> here.\<close>

definition clause_step :: "schedule \<Rightarrow> int \<Rightarrow> Clause \<Rightarrow> int" where
  "clause_step P tot c =
     (let contractCreation = (To c = None);
          tot = tot + core_IntrinsicGas P (Data c) contractCreation True
      in tot - overpayed P contractCreation)"

fun clause_loop :: "schedule \<Rightarrow> int \<Rightarrow> Clause list \<Rightarrow> int" where
  "clause_loop P tot [] = tot"
| "clause_loop P tot (c # cs) = clause_loop P (clause_step P tot c) cs"

text \<open>The value of \<open>total\<close> when the loop is left, for a transaction with a first clause.\<close>

definition gas_total :: "schedule \<Rightarrow> Clause \<Rightarrow> Clause list \<Rightarrow> int" where
  "gas_total P firstClause rest =
     clause_loop P (core_IntrinsicGas P (Data firstClause) (To firstClause = None) True) rest"

definition Transaction_IntrinsicGas :: "schedule \<Rightarrow> ('g, 's) Transaction \<Rightarrow> error + u64" where
  "Transaction_IntrinsicGas P t =
     (case Clauses (body t) of
        [] \<Rightarrow> Inr (TxGas P)
      | firstClause # rest \<Rightarrow>
          (let tot = gas_total P firstClause rest
           in if big_BitLen tot > 64 then Inl GasTooLarge else Inr (big_Uint64 tot)))"

section \<open>The canonical encoding\<close>

text \<open>Modelled from the spec: the canonical encoder and decoder, go-ethereum's package
  \<open>rlp\<close>, are not among the sources. The spec describes a recursive, deterministic byte format
  over byte sequences and ordered lists; the layout below is RLP. The decoder accepts the
  canonical encodings only.\<close>

datatype rlp = Str "byte list" | Lst "rlp list"

text \<open>A number in big-endian bytes without leading zeros (\<open>putint\<close>), and back.\<close>

fun be_bytes :: "nat \<Rightarrow> byte list" where
  "be_bytes n = (if n = 0 then [] else be_bytes (n div 256) @ [of_nat (n mod 256)])"

declare be_bytes.simps [simp del]

definition be_nat :: "byte list \<Rightarrow> nat" where
  "be_nat bs = foldl (\<lambda>a b. a * 256 + unat b) 0 bs"

definition puthead :: "nat \<Rightarrow> nat \<Rightarrow> nat \<Rightarrow> byte list" where
  "puthead smalltag largetag sz =
     (if sz < 56 then [of_nat (smalltag + sz)]
      else (let sizebytes = be_bytes sz
            in of_nat (largetag + length sizebytes) # sizebytes))"

fun rlp_encode :: "rlp \<Rightarrow> byte list" where
  "rlp_encode (Str b) =
     (if length b = 1 \<and> hd b \<le> 0x7F then b else puthead 0x80 0xB7 (length b) @ b)"
| "rlp_encode (Lst xs) =
     (let payload = concat (map rlp_encode xs)
      in puthead 0xC0 0xF7 (length payload) @ payload)"

text \<open>Reading a size of \<open>n\<close> bytes: it has no leading zero and is at least 56.\<close>

definition read_size :: "byte list \<Rightarrow> nat \<Rightarrow> error + nat" where
  "read_size bs n =
     (if length bs < n then Inl DecodeError
      else if hd bs = 0 then Inl DecodeError
      else (let sz = be_nat (take n bs)
            in if sz < 56 then Inl DecodeError else Inr sz))"

definition take_payload :: "byte list \<Rightarrow> nat \<Rightarrow> error + (byte list \<times> byte list)" where
  "take_payload bs sz =
     (if length bs < sz then Inl DecodeError else Inr (take sz bs, drop sz bs))"

text \<open>The first value of an input: whether it is a list, its payload, and the input left.\<close>

definition split_item :: "byte list \<Rightarrow> error + (bool \<times> byte list \<times> byte list)" where
  "split_item bs =
     (case bs of
        [] \<Rightarrow> Inl DecodeError
      | b # rest \<Rightarrow>
          (let n = unat b in
           if n < 0x80 then Inr (False, [b], rest)
           else if n < 0xB8 then
             (case take_payload rest (n - 0x80) of
                Inl e \<Rightarrow> Inl e
              | Inr (p, rest') \<Rightarrow>
                  if length p = 1 \<and> unat (hd p) < 0x80 then Inl DecodeError
                  else Inr (False, p, rest'))
           else if n < 0xC0 then
             (case read_size rest (n - 0xB7) of
                Inl e \<Rightarrow> Inl e
              | Inr sz \<Rightarrow>
                  (case take_payload (drop (n - 0xB7) rest) sz of
                     Inl e \<Rightarrow> Inl e
                   | Inr (p, rest') \<Rightarrow> Inr (False, p, rest')))
           else if n < 0xF8 then
             (case take_payload rest (n - 0xC0) of
                Inl e \<Rightarrow> Inl e
              | Inr (p, rest') \<Rightarrow> Inr (True, p, rest'))
           else
             (case read_size rest (n - 0xF7) of
                Inl e \<Rightarrow> Inl e
              | Inr sz \<Rightarrow>
                  (case take_payload (drop (n - 0xF7) rest) sz of
                     Inl e \<Rightarrow> Inl e
                   | Inr (p, rest') \<Rightarrow> Inr (True, p, rest')))))"

text \<open>All values of a list payload. Both recursive calls are on strictly shorter input.\<close>

function decode_list :: "byte list \<Rightarrow> error + rlp list" where
  "decode_list bs =
     (if bs = [] then Inr []
      else (case split_item bs of
              Inl e \<Rightarrow> Inl e
            | Inr (is_list, payload, rest) \<Rightarrow>
                (case (if is_list
                       then (case decode_list payload of
                               Inl e \<Rightarrow> Inl e
                             | Inr xs \<Rightarrow> Inr (Lst xs))
                       else Inr (Str payload)) of
                   Inl e \<Rightarrow> Inl e
                 | Inr x \<Rightarrow>
                     (case decode_list rest of
                        Inl e \<Rightarrow> Inl e
                      | Inr xs \<Rightarrow> Inr (x # xs)))))"
  by pat_completeness auto
termination
proof (relation "measure length")
  show "wf (measure length)" by simp
next
  fix bs :: "byte list" and x2 is_list y payload rest
  assume "bs \<noteq> []" and s: "split_item bs = Inr x2" and x2: "(is_list, y) = x2"
    and y: "(payload, rest) = y" and "is_list"
  from s x2 y have "split_item bs = Inr (True, payload, rest)"
    using \<open>is_list\<close> by simp
  then have "length payload < length bs"
    by (auto simp: split_item_def take_payload_def Let_def
        split: list.splits if_splits sum.splits prod.splits)
  then show "(payload, bs) \<in> measure length" by simp
next
  fix bs :: "byte list" and x2 is_list y payload rest x2a
  assume "bs \<noteq> []" and s: "split_item bs = Inr x2" and x2: "(is_list, y) = x2"
    and y: "(payload, rest) = y"
  from s x2 y have "split_item bs = Inr (is_list, payload, rest)"
    by simp
  then have "length rest < length bs"
    by (auto simp: split_item_def take_payload_def Let_def
        split: list.splits if_splits sum.splits prod.splits)
  then show "(rest, bs) \<in> measure length" by simp
qed

declare decode_list.simps [simp del]

text \<open>One value from the front of the input, and the input left.\<close>

definition rlp_decode :: "byte list \<Rightarrow> error + (rlp \<times> byte list)" where
  "rlp_decode bs =
     (case split_item bs of
        Inl e \<Rightarrow> Inl e
      | Inr (is_list, payload, rest) \<Rightarrow>
          if is_list
          then (case decode_list payload of
                  Inl e \<Rightarrow> Inl e
                | Inr xs \<Rightarrow> Inr (Lst xs, rest))
          else Inr (Str payload, rest))"

fun payload_of :: "rlp \<Rightarrow> byte list" where
  "payload_of (Str b) = b"
| "payload_of (Lst xs) = concat (map rlp_encode xs)"

fun is_Lst :: "rlp \<Rightarrow> bool" where
  "is_Lst (Str b) = False"
| "is_Lst (Lst xs) = True"

section \<open>Encoding and decoding of the field types\<close>

text \<open>Sequencing of fallible steps: the first error ends the computation.\<close>

definition err_bind :: "error + 'a \<Rightarrow> ('a \<Rightarrow> error + 'b) \<Rightarrow> error + 'b" where
  "err_bind m f = (case m of Inl e \<Rightarrow> Inl e | Inr x \<Rightarrow> f x)"

fun map_err :: "('a \<Rightarrow> error + 'b) \<Rightarrow> 'a list \<Rightarrow> error + 'b list" where
  "map_err f [] = Inr []"
| "map_err f (x # xs) =
     err_bind (f x) (\<lambda>y. err_bind (map_err f xs) (\<lambda>ys. Inr (y # ys)))"

text \<open>Modelled from the spec: how package \<open>rlp\<close> (not among the sources) writes and reads the
  types of the fields. A \<open>uint64\<close> and a non-negative \<open>*big.Int\<close> are the string of their
  big-endian bytes, read back only without a leading zero; a negative \<open>*big.Int\<close> is not
  encodable; a \<open>[]byte\<close> is a string; a \<open>*thor.Hash\<close> tagged \<open>rlp:"nil"\<close> is the empty string
  when absent and the string of its 32 bytes otherwise, and an empty value reads as absent.\<close>

definition enc_uint64 :: "u64 \<Rightarrow> rlp" where
  "enc_uint64 i = Str (be_bytes (unat i))"

definition dec_uint64 :: "rlp \<Rightarrow> error + u64" where
  "dec_uint64 x =
     (case x of
        Lst xs \<Rightarrow> Inl DecodeError
      | Str b \<Rightarrow>
          if length b > 8 then Inl DecodeError
          else if b \<noteq> [] \<and> hd b = 0 then Inl DecodeError
          else Inr (of_nat (be_nat b)))"

definition enc_bigint :: "int \<Rightarrow> error + rlp" where
  "enc_bigint i = (if i < 0 then Inl EncodeError else Inr (Str (be_bytes (nat i))))"

definition dec_bigint :: "rlp \<Rightarrow> error + int" where
  "dec_bigint x =
     (case x of
        Lst xs \<Rightarrow> Inl DecodeError
      | Str b \<Rightarrow>
          if b \<noteq> [] \<and> hd b = 0 then Inl DecodeError
          else Inr (int (be_nat b)))"

definition dec_bytes :: "rlp \<Rightarrow> error + byte list" where
  "dec_bytes x = (case x of Lst xs \<Rightarrow> Inl DecodeError | Str b \<Rightarrow> Inr b)"

definition enc_hash_ptr :: "hash option \<Rightarrow> rlp" where
  "enc_hash_ptr p = (case p of None \<Rightarrow> Str [] | Some h \<Rightarrow> Str h)"

definition dec_hash_ptr :: "rlp \<Rightarrow> error + hash option" where
  "dec_hash_ptr x =
     (case x of
        Lst xs \<Rightarrow> if xs = [] then Inr None else Inl DecodeError
      | Str b \<Rightarrow>
          if b = [] then Inr None
          else if length b = 32 then Inr (Some b)
          else Inl DecodeError)"

text \<open>What \<open>rlp.Encode\<close> hands to its writer: the encoding, or nothing when encoding fails.\<close>

definition rlp_Encode :: "error + rlp \<Rightarrow> byte list" where
  "rlp_Encode v = (case v of Inl e \<Rightarrow> [] | Inr x \<Rightarrow> rlp_encode x)"

text \<open>An \<open>rlp.Stream\<close> is represented by what reading its next value gives: the value or an
  error. \<open>stream_of\<close> is the stream over an input byte sequence.\<close>

type_synonym stream = "error + rlp"

definition stream_of :: "byte list \<Rightarrow> stream" where
  "stream_of bs = (case rlp_decode bs of Inl e \<Rightarrow> Inl e | Inr (x, rest) \<Rightarrow> Inr x)"

section \<open>Transaction\<close>

text \<open>The collaborators of \<open>Transaction\<close> that are outside the sources, as a parameter: the
  hash function behind \<open>cry.NewHasher\<close> (from the bytes written to the sum), and the encoder
  and decoder of \<open>Clause\<close>.\<close>

record tx_deps =
  Hasher :: "byte list \<Rightarrow> hash"
  Clause_EncodeRLP :: "Clause \<Rightarrow> error + rlp"
  Clause_DecodeRLP :: "rlp \<Rightarrow> error + Clause"

text \<open>The struct \<open>body\<close> as a list of its seven fields in declaration order, and back. A list
  of another length, or a field that does not read, is an error.\<close>

definition body_rlp :: "tx_deps \<Rightarrow> (int, byte list) body \<Rightarrow> error + rlp" where
  "body_rlp X b =
     err_bind (map_err (Clause_EncodeRLP X) (Clauses b)) (\<lambda>cs.
     err_bind (enc_bigint (GasPrice b)) (\<lambda>gp.
       Inr (Lst [Lst cs, gp, enc_uint64 (Gas b), enc_uint64 (Nonce b),
                 enc_uint64 (TimeBarrier b), enc_hash_ptr (DependsOn b),
                 Str (Signature b)])))"

definition dec_clauses :: "tx_deps \<Rightarrow> rlp \<Rightarrow> error + Clause list" where
  "dec_clauses X x =
     (case x of Str b \<Rightarrow> Inl DecodeError | Lst xs \<Rightarrow> map_err (Clause_DecodeRLP X) xs)"

definition rlp_body :: "tx_deps \<Rightarrow> rlp \<Rightarrow> error + (int, byte list) body" where
  "rlp_body X x =
     (case x of
        Str b \<Rightarrow> Inl DecodeError
      | Lst fs \<Rightarrow>
          if length fs \<noteq> 7 then Inl DecodeError
          else
            err_bind (dec_clauses X (fs ! 0)) (\<lambda>cs.
            err_bind (dec_bigint (fs ! 1)) (\<lambda>gp.
            err_bind (dec_uint64 (fs ! 2)) (\<lambda>g.
            err_bind (dec_uint64 (fs ! 3)) (\<lambda>n.
            err_bind (dec_uint64 (fs ! 4)) (\<lambda>tb.
            err_bind (dec_hash_ptr (fs ! 5)) (\<lambda>dep.
            err_bind (dec_bytes (fs ! 6)) (\<lambda>sig.
              Inr \<lparr>Clauses = cs, GasPrice = gp, Gas = g, Nonce = n, TimeBarrier = tb,
                   DependsOn = dep, Signature = sig\<rparr>))))))))"

text \<open>\<open>EncodeRLP\<close> encodes \<open>&t.body\<close>.\<close>

definition Transaction_EncodeRLP :: "tx_deps \<Rightarrow> Tx \<Rightarrow> error + byte list" where
  "Transaction_EncodeRLP X t =
     (case body_rlp X (body t) of Inl e \<Rightarrow> Inl e | Inr x \<Rightarrow> Inr (rlp_encode x))"

text \<open>\<open>DecodeRLP\<close> decodes into the local \<open>body\<close> and assigns \<open>*t\<close> only after that
  succeeded. The receiver is passed in and returned.\<close>

definition Transaction_DecodeRLP :: "tx_deps \<Rightarrow> stream \<Rightarrow> Tx \<Rightarrow> error option \<times> Tx" where
  "Transaction_DecodeRLP X s t =
     (case err_bind s (rlp_body X) of
        Inl err \<Rightarrow> (Some err, t)
      | Inr b \<Rightarrow> (None, \<lparr>body = b, cache_hash = None\<rparr>))"

text \<open>\<open>Hash\<close> returns the cached hash or computes and stores it. The receiver is returned
  with its cache.\<close>

definition Transaction_Hash :: "tx_deps \<Rightarrow> Tx \<Rightarrow> hash \<times> Tx" where
  "Transaction_Hash X t =
     (case cache_hash t of
        Some cached \<Rightarrow> (cached, t)
      | None \<Rightarrow>
          (let hash = Hasher X (rlp_Encode (body_rlp X (body t)))
           in (hash, t\<lparr>cache_hash := Some hash\<rparr>)))"

text \<open>\<open>SigningHash\<close> encodes the list literal of six fields into the hasher. The error of
  \<open>rlp.Encode\<close> is dropped.\<close>

definition signing_rlp :: "tx_deps \<Rightarrow> (int, 's) body \<Rightarrow> error + rlp" where
  "signing_rlp X b =
     err_bind (map_err (Clause_EncodeRLP X) (Clauses b)) (\<lambda>cs.
     err_bind (enc_bigint (GasPrice b)) (\<lambda>gp.
       Inr (Lst [Lst cs, gp, enc_uint64 (Gas b), enc_uint64 (Nonce b),
                 enc_uint64 (TimeBarrier b), enc_hash_ptr (DependsOn b)])))"

definition Transaction_SigningHash :: "tx_deps \<Rightarrow> (int, 's) Transaction \<Rightarrow> hash" where
  "Transaction_SigningHash X t = Hasher X (rlp_Encode (signing_rlp X (body t)))"

section \<open>Block\<close>

text \<open>The struct \<open>Block\<close>. \<open>Header\<close> is outside the sources: its type is a type parameter and
  its operations are a parameter. The transaction sequence has a type parameter like the
  reference fields of \<open>body\<close>.\<close>

record ('h, 't) Block =
  header :: 'h
  txs :: 't
  cache_size :: "nat option"

record 'h header_deps =
  Header_EncodeRLP :: "'h \<Rightarrow> error + rlp"
  Header_DecodeRLP :: "rlp \<Rightarrow> error + 'h"
  Header_withSignature :: "'h \<Rightarrow> byte list \<Rightarrow> 'h"

definition Compose :: "'h \<Rightarrow> Tx list \<Rightarrow> ('h, Tx list) Block" where
  "Compose hdr ts = \<lparr>header = hdr, txs = ts, cache_size = None\<rparr>"


text \<open>\<open>EncodeRLP\<close> encodes the pair of the header and the transactions, each transaction
  through its own \<open>EncodeRLP\<close>.\<close>

definition block_rlp :: "tx_deps \<Rightarrow> 'h header_deps \<Rightarrow> ('h, Tx list) Block \<Rightarrow> error + rlp" where
  "block_rlp X HX b =
     err_bind (Header_EncodeRLP HX (header b)) (\<lambda>h.
     err_bind (map_err (\<lambda>t. body_rlp X (body t)) (txs b)) (\<lambda>ts.
       Inr (Lst [h, Lst ts])))"

definition Block_EncodeRLP ::
  "tx_deps \<Rightarrow> 'h header_deps \<Rightarrow> ('h, Tx list) Block \<Rightarrow> error + byte list" where
  "Block_EncodeRLP X HX b =
     (case block_rlp X HX b of Inl e \<Rightarrow> Inl e | Inr x \<Rightarrow> Inr (rlp_encode x))"

text \<open>The decoder makes a new \<open>Transaction\<close> for each element of the list and calls its
  \<open>DecodeRLP\<close>. The new value's \<open>GasPrice\<close> is a \<open>nil\<close> pointer, which the record of values
  cannot hold; \<open>DecodeRLP\<close> never reads the receiver.\<close>

definition new_Transaction :: Tx where
  "new_Transaction = \<lparr>body = \<lparr>Clauses = [], GasPrice = 0, Gas = 0, Nonce = 0, TimeBarrier = 0,
     DependsOn = None, Signature = []\<rparr>, cache_hash = None\<rparr>"

definition dec_tx :: "tx_deps \<Rightarrow> rlp \<Rightarrow> error + Tx" where
  "dec_tx X x =
     (case Transaction_DecodeRLP X (Inr x) new_Transaction of
        (Some err, t) \<Rightarrow> Inl err
      | (None, t) \<Rightarrow> Inr t)"

definition dec_txs :: "tx_deps \<Rightarrow> rlp \<Rightarrow> error + Tx list" where
  "dec_txs X x = (case x of Str b \<Rightarrow> Inl DecodeError | Lst xs \<Rightarrow> map_err (dec_tx X) xs)"

text \<open>The local struct \<open>payload\<close> of \<open>DecodeRLP\<close>, with fields \<open>Header\<close> and \<open>Txs\<close>.\<close>

definition rlp_payload :: "tx_deps \<Rightarrow> 'h header_deps \<Rightarrow> rlp \<Rightarrow> error + ('h \<times> Tx list)" where
  "rlp_payload X HX x =
     (case x of
        Str b \<Rightarrow> Inl DecodeError
      | Lst fs \<Rightarrow>
          if length fs \<noteq> 2 then Inl DecodeError
          else
            err_bind (Header_DecodeRLP HX (fs ! 0)) (\<lambda>h.
            err_bind (dec_txs X (fs ! 1)) (\<lambda>ts. Inr (h, ts))))"

definition Block_DecodeRLP ::
  "tx_deps \<Rightarrow> 'h header_deps \<Rightarrow> stream \<Rightarrow> ('h, Tx list) Block
     \<Rightarrow> error option \<times> ('h, Tx list) Block" where
  "Block_DecodeRLP X HX s b =
     (case err_bind s (rlp_payload X HX) of
        Inl err \<Rightarrow> (Some err, b)
      | Inr payload \<Rightarrow> (None, \<lparr>header = fst payload, txs = snd payload, cache_size = None\<rparr>))"

text \<open>\<open>counterWriter.Write\<close> on the count so far: the number of bytes taken and the new
  count.\<close>

definition counterWriter_Write :: "nat \<Rightarrow> byte list \<Rightarrow> nat \<times> nat" where
  "counterWriter_Write count p = (let n = length p in (n, count + n))"


section \<open>Objects in a store\<close>

text \<open>For the accessors that copy, and for \<open>WithSignature\<close>, the values live in a store:
  backing arrays of byte slices and of transaction slices, \<open>big.Int\<close> values, and the
  \<open>Transaction\<close> and \<open>Block\<close> structs, each at an address. A slice is the address of its
  backing array, or \<open>None\<close> for \<open>nil\<close>; a pointer is an address, or \<open>None\<close> for \<open>nil\<close>. New
  objects are placed at \<open>next_addr\<close>. Every function returns \<open>None\<close> where Go would panic on
  a \<open>nil\<close> pointer, or where the store does not hold the kind of object the type promises.\<close>

type_synonym addr = nat

type_synonym TxRef = "(addr option, addr option) Transaction"

datatype 'h object =
    ByteArray "byte list"
  | BigInt int
  | TxArray "addr list"
  | TxObject TxRef
  | BlockObject "('h, addr option) Block"

record 'h store =
  objects :: "addr \<Rightarrow> 'h object option"
  next_addr :: addr

definition alloc :: "'h store \<Rightarrow> 'h object \<Rightarrow> addr \<times> 'h store" where
  "alloc h ob =
     (next_addr h, h\<lparr>objects := (objects h)(next_addr h := Some ob),
                     next_addr := Suc (next_addr h)\<rparr>)"

definition store_write :: "'h store \<Rightarrow> addr \<Rightarrow> 'h object \<Rightarrow> 'h store" where
  "store_write h a ob = h\<lparr>objects := (objects h)(a := Some ob)\<rparr>"

definition bytes_at :: "'h store \<Rightarrow> addr option \<Rightarrow> byte list option" where
  "bytes_at h s =
     (case s of
        None \<Rightarrow> Some []
      | Some a \<Rightarrow> (case objects h a of Some (ByteArray bs) \<Rightarrow> Some bs | _ \<Rightarrow> None))"

definition bigint_at :: "'h store \<Rightarrow> addr option \<Rightarrow> int option" where
  "bigint_at h p =
     (case p of
        None \<Rightarrow> None
      | Some a \<Rightarrow> (case objects h a of Some (BigInt v) \<Rightarrow> Some v | _ \<Rightarrow> None))"

definition txs_at :: "'h store \<Rightarrow> addr option \<Rightarrow> addr list option" where
  "txs_at h s =
     (case s of
        None \<Rightarrow> Some []
      | Some a \<Rightarrow> (case objects h a of Some (TxArray ps) \<Rightarrow> Some ps | _ \<Rightarrow> None))"

text \<open>\<open>append(T(nil), src...)\<close>: \<open>nil\<close> for an empty source, otherwise a new backing array
  holding the elements.\<close>

definition append_nil ::
  "('a list \<Rightarrow> 'h object) \<Rightarrow> 'h store \<Rightarrow> 'a list \<Rightarrow> addr option \<times> 'h store" where
  "append_nil mk h src =
     (if src = [] then (None, h)
      else (let (a, h') = alloc h (mk src) in (Some a, h')))"

text \<open>\<open>GasPrice\<close> is \<open>new(big.Int).Set(t.body.GasPrice)\<close>; \<open>Signature\<close> and
  \<open>Block.Transactions\<close> are an \<open>append\<close> to \<open>nil\<close>.\<close>

definition Transaction_GasPrice :: "'h store \<Rightarrow> addr \<Rightarrow> (addr \<times> 'h store) option" where
  "Transaction_GasPrice h t =
     (case objects h t of
        Some (TxObject tx) \<Rightarrow>
          (case bigint_at h (GasPrice (body tx)) of
             None \<Rightarrow> None
           | Some v \<Rightarrow> Some (alloc h (BigInt v)))
      | _ \<Rightarrow> None)"

definition Transaction_Signature :: "'h store \<Rightarrow> addr \<Rightarrow> (addr option \<times> 'h store) option" where
  "Transaction_Signature h t =
     (case objects h t of
        Some (TxObject tx) \<Rightarrow>
          (case bytes_at h (Signature (body tx)) of
             None \<Rightarrow> None
           | Some bs \<Rightarrow> Some (append_nil ByteArray h bs))
      | _ \<Rightarrow> None)"

text \<open>\<open>WithSignature\<close>: the new struct \<open>newTx\<close> gets a copy of \<open>t.body\<close> (its slices and
  pointers are the same addresses) and an empty cache; then its \<open>Signature\<close> is set to a
  copy of \<open>sig\<close>; its address is returned.\<close>

definition Transaction_WithSignature ::
  "'h store \<Rightarrow> addr \<Rightarrow> addr option \<Rightarrow> (addr \<times> 'h store) option" where
  "Transaction_WithSignature h t sig =
     (case objects h t of
        Some (TxObject tx) \<Rightarrow>
          (case bytes_at h sig of
             None \<Rightarrow> None
           | Some bs \<Rightarrow>
               (let (newTx, h1) = alloc h (TxObject \<lparr>body = body tx, cache_hash = None\<rparr>);
                    (s, h2) = append_nil ByteArray h1 bs
                in Some (newTx,
                     store_write h2 newTx
                       (TxObject \<lparr>body = (body tx)\<lparr>Signature := s\<rparr>, cache_hash = None\<rparr>))))
      | _ \<Rightarrow> None)"

definition Block_Transactions :: "'h store \<Rightarrow> addr \<Rightarrow> (addr option \<times> 'h store) option" where
  "Block_Transactions h b =
     (case objects h b of
        Some (BlockObject blk) \<Rightarrow>
          (case txs_at h (txs blk) of
             None \<Rightarrow> None
           | Some ps \<Rightarrow> Some (append_nil TxArray h ps))
      | _ \<Rightarrow> None)"

text \<open>The transaction and the block of values that a struct in the store stands for: its
  references followed.\<close>

definition load_tx :: "'h store \<Rightarrow> addr \<Rightarrow> Tx option" where
  "load_tx h t =
     (case objects h t of
        Some (TxObject tx) \<Rightarrow>
          (case bigint_at h (GasPrice (body tx)) of
             None \<Rightarrow> None
           | Some v \<Rightarrow>
               (case bytes_at h (Signature (body tx)) of
                  None \<Rightarrow> None
                | Some bs \<Rightarrow>
                    Some \<lparr>body = \<lparr>Clauses = Clauses (body tx), GasPrice = v,
                                   Gas = Gas (body tx), Nonce = Nonce (body tx),
                                   TimeBarrier = TimeBarrier (body tx),
                                   DependsOn = DependsOn (body tx), Signature = bs\<rparr>,
                          cache_hash = cache_hash tx\<rparr>))
      | _ \<Rightarrow> None)"

fun load_txs :: "'h store \<Rightarrow> addr list \<Rightarrow> Tx list option" where
  "load_txs h [] = Some []"
| "load_txs h (p # ps) =
     (case load_tx h p of
        None \<Rightarrow> None
      | Some t \<Rightarrow> (case load_txs h ps of None \<Rightarrow> None | Some ts \<Rightarrow> Some (t # ts)))"

definition load_block :: "'h store \<Rightarrow> addr \<Rightarrow> ('h, Tx list) Block option" where
  "load_block h b =
     (case objects h b of
        Some (BlockObject blk) \<Rightarrow>
          (case txs_at h (txs blk) of
             None \<Rightarrow> None
           | Some ps \<Rightarrow>
               (case load_txs h ps of
                  None \<Rightarrow> None
                | Some ts \<Rightarrow>
                    Some \<lparr>header = header blk, txs = ts, cache_size = cache_size blk\<rparr>))
      | _ \<Rightarrow> None)"

text \<open>\<open>Transaction.DecodeRLP\<close> on the transaction at address \<open>t\<close>: the body is decoded into a
  local value; on an error the store is as it was; otherwise the struct at \<open>t\<close> is overwritten
  with the decoded body, its gas price and signature newly allocated, and an empty cache.
  Every holder of the pointer \<open>t\<close> then reads the new value.\<close>

definition Transaction_DecodeRLP_store ::
  "tx_deps \<Rightarrow> 'h store \<Rightarrow> stream \<Rightarrow> addr \<Rightarrow> (error option \<times> 'h store) option" where
  "Transaction_DecodeRLP_store X h s t =
     (case objects h t of
        Some (TxObject tx) \<Rightarrow>
          (case err_bind s (rlp_body X) of
             Inl err \<Rightarrow> Some (Some err, h)
           | Inr b \<Rightarrow>
               (let (g, h1) = alloc h (BigInt (GasPrice b));
                    (sg, h2) = append_nil ByteArray h1 (Signature b)
                in Some (None,
                     store_write h2 t
                       (TxObject \<lparr>body = \<lparr>Clauses = Clauses b, GasPrice = Some g, Gas = Gas b,
                                   Nonce = Nonce b, TimeBarrier = TimeBarrier b,
                                   DependsOn = DependsOn b, Signature = sg\<rparr>,
                                 cache_hash = None\<rparr>))))
      | _ \<Rightarrow> None)"



text \<open>Well-formed structs: they and everything they refer to lie below \<open>next_addr\<close>.\<close>

definition allocated :: "'h store \<Rightarrow> addr option \<Rightarrow> bool" where
  "allocated h p = (case p of None \<Rightarrow> True | Some a \<Rightarrow> a < next_addr h)"

definition tx_wf :: "'h store \<Rightarrow> addr \<Rightarrow> bool" where
  "tx_wf h t \<longleftrightarrow>
     t < next_addr h \<and>
     (case objects h t of
        Some (TxObject tx) \<Rightarrow>
          allocated h (GasPrice (body tx)) \<and> allocated h (Signature (body tx))
      | _ \<Rightarrow> False)"

definition block_wf :: "'h store \<Rightarrow> addr \<Rightarrow> bool" where
  "block_wf h b \<longleftrightarrow>
     b < next_addr h \<and>
     (case objects h b of
        Some (BlockObject blk) \<Rightarrow>
          allocated h (txs blk) \<and>
          (case txs_at h (txs blk) of None \<Rightarrow> False | Some ps \<Rightarrow> list_all (tx_wf h) ps)
      | _ \<Rightarrow> False)"

text \<open>What the calls on a transaction at address \<open>t\<close> give in store \<open>h\<close>: the transaction of
  values (which every method that only reads is a function of), the bytes that \<open>Signature\<close>
  returns and the number that \<open>GasPrice\<close> returns. For a block: the block of values, and the
  pointers that \<open>Transactions\<close> returns with the transactions they point to.\<close>

definition tx_results ::
  "'h store \<Rightarrow> addr \<Rightarrow> Tx option \<times> byte list option option \<times> int option option" where
  "tx_results h t =
     (load_tx h t,
      map_option (\<lambda>(r, h'). bytes_at h' r) (Transaction_Signature h t),
      map_option (\<lambda>(g, h'). bigint_at h' (Some g)) (Transaction_GasPrice h t))"

definition block_results ::
  "'h store \<Rightarrow> addr
     \<Rightarrow> ('h, Tx list) Block option \<times> (addr list \<times> Tx list option) option option" where
  "block_results h b =
     (load_block h b,
      map_option (\<lambda>(r, h'). map_option (\<lambda>ps. (ps, load_txs h' ps)) (txs_at h' r))
        (Block_Transactions h b))"

text \<open>Two stores agree below \<open>n\<close>: every object at an address below \<open>n\<close> is the same.\<close>

definition agree_below :: "addr \<Rightarrow> 'h store \<Rightarrow> 'h store \<Rightarrow> bool" where
  "agree_below n h h' \<longleftrightarrow> (\<forall>a < n. objects h' a = objects h a)"

section \<open>Notions used in the statements\<close>

text \<open>The helper \<open>core.IntrinsicGas\<close> charges at least the flat base cost of the kind of
  clause (the spec: a flat base cost plus a cost per byte of data).\<close>

definition charges_base_cost :: "schedule \<Rightarrow> bool" where
  "charges_base_cost P \<longleftrightarrow>
     (\<forall>data contractCreation.
        uint (if contractCreation then TxGasContractCreation P else TxGas P)
          \<le> core_IntrinsicGas P data contractCreation True)"

text \<open>Validly constructed values: every clause is one that the clause encoder and decoder
  take there and back, the gas price is not negative, a present \<open>DependsOn\<close> has 32 bytes;
  for a block, the header is one that its encoder and decoder take there and back, and
  every transaction is valid.\<close>

definition clause_roundtrips :: "tx_deps \<Rightarrow> Clause \<Rightarrow> bool" where
  "clause_roundtrips X c =
     (case Clause_EncodeRLP X c of Inl e \<Rightarrow> False | Inr x \<Rightarrow> Clause_DecodeRLP X x = Inr c)"

definition valid_body :: "tx_deps \<Rightarrow> (int, byte list) body \<Rightarrow> bool" where
  "valid_body X b \<longleftrightarrow>
     list_all (clause_roundtrips X) (Clauses b) \<and> 0 \<le> GasPrice b \<and>
     (case DependsOn b of None \<Rightarrow> True | Some h \<Rightarrow> length h = 32)"

definition header_roundtrips :: "'h header_deps \<Rightarrow> 'h \<Rightarrow> bool" where
  "header_roundtrips HX h =
     (case Header_EncodeRLP HX h of Inl e \<Rightarrow> False | Inr x \<Rightarrow> Header_DecodeRLP HX x = Inr h)"

definition valid_block :: "tx_deps \<Rightarrow> 'h header_deps \<Rightarrow> ('h, Tx list) Block \<Rightarrow> bool" where
  "valid_block X HX b \<longleftrightarrow>
     header_roundtrips HX (header b) \<and> list_all (\<lambda>t. valid_body X (body t)) (txs b)"

text \<open>Logical equality leaves the caches out.\<close>

definition tx_equal :: "Tx \<Rightarrow> Tx \<Rightarrow> bool" where
  "tx_equal t t' \<longleftrightarrow> body t = body t'"

definition block_equal :: "('h, Tx list) Block \<Rightarrow> ('h, Tx list) Block \<Rightarrow> bool" where
  "block_equal b b' \<longleftrightarrow> header b = header b' \<and> list_all2 tx_equal (txs b) (txs b')"



text \<open>The signing hash in the words of the spec: the encodings of the six fields
  \<open>clauses\<close>, \<open>gas_price\<close>, \<open>gas\<close>, \<open>nonce\<close>, \<open>time_barrier\<close>, \<open>depends_on\<close>, in this order, and
  the canonical encoding of a tuple of encodable items.\<close>

definition spec_signing_fields :: "tx_deps \<Rightarrow> (int, 's) Transaction \<Rightarrow> (error + rlp) list" where
  "spec_signing_fields X t =
     [err_bind (map_err (Clause_EncodeRLP X) (Clauses (body t))) (\<lambda>cs. Inr (Lst cs)),
      enc_bigint (GasPrice (body t)),
      Inr (enc_uint64 (Gas (body t))),
      Inr (enc_uint64 (Nonce (body t))),
      Inr (enc_uint64 (TimeBarrier (body t))),
      Inr (enc_hash_ptr (DependsOn (body t)))]"

definition spec_encode_tuple :: "(error + rlp) list \<Rightarrow> byte list" where
  "spec_encode_tuple items =
     rlp_Encode (err_bind (map_err (\<lambda>item. item) items) (\<lambda>xs. Inr (Lst xs)))"

definition same_unsigned_fields :: "(int, 's) Transaction \<Rightarrow> (int, 's2) Transaction \<Rightarrow> bool" where
  "same_unsigned_fields t t' \<longleftrightarrow>
     Clauses (body t) = Clauses (body t') \<and> GasPrice (body t) = GasPrice (body t') \<and>
     Gas (body t) = Gas (body t') \<and> Nonce (body t) = Nonce (body t') \<and>
     TimeBarrier (body t) = TimeBarrier (body t') \<and> DependsOn (body t) = DependsOn (body t')"

section \<open>Example values\<close>

text \<open>Modelled from the spec: go-ethereum's \<open>core.IntrinsicGas\<close>, which is not among the
  sources, for given constants: a flat base cost that depends on whether the recipient is
  absent, plus a cost per byte of the data, zero and non-zero bytes priced apart.\<close>

definition geth_IntrinsicGas ::
  "u64 \<Rightarrow> u64 \<Rightarrow> u64 \<Rightarrow> u64 \<Rightarrow> byte list \<Rightarrow> bool \<Rightarrow> bool \<Rightarrow> int" where
  "geth_IntrinsicGas txGas txGasContractCreation txDataZeroGas txDataNonZeroGas
       data contractCreation homestead =
     (let igas = (if contractCreation \<and> homestead then uint txGasContractCreation
                  else uint txGas)
      in if length data > 0 then
           (let nz = int (length (filter (\<lambda>byt. byt \<noteq> 0) data))
            in igas + nz * uint txDataNonZeroGas
                    + (int (length data) - nz) * uint txDataZeroGas)
         else igas)"

text \<open>A gas schedule with go-ethereum's protocol constants and example values for the two
  constants of package \<open>thor\<close>; a schedule with a very large price per non-zero byte, so that
  a short clause already exceeds 64 bits.\<close>

definition example_schedule :: schedule where
  "example_schedule = \<lparr>TxGas = 21000, TxGasContractCreation = 53000, ClauseGas = 16000,
     ClauseGasContractCreation = 48000,
     core_IntrinsicGas = geth_IntrinsicGas 21000 53000 4 68\<rparr>"

definition seam_schedule :: schedule where
  "seam_schedule = \<lparr>TxGas = 21000, TxGasContractCreation = 53000, ClauseGas = 16000,
     ClauseGasContractCreation = 48000,
     core_IntrinsicGas = geth_IntrinsicGas 21000 53000 4 (2 ^ 63)\<rparr>"

text \<open>Clauses and transactions.\<close>

definition call_clause :: "byte list \<Rightarrow> Clause" where
  "call_clause d = \<lparr>To = Some (replicate 20 1), Value = 0, Data = d\<rparr>"

definition create_clause :: "byte list \<Rightarrow> Clause" where
  "create_clause d = \<lparr>To = None, Value = 0, Data = d\<rparr>"

definition example_tx :: "Clause list \<Rightarrow> Tx" where
  "example_tx cs = \<lparr>body = \<lparr>Clauses = cs, GasPrice = 1, Gas = 100000, Nonce = 7,
     TimeBarrier = 0, DependsOn = None, Signature = []\<rparr>, cache_hash = None\<rparr>"

definition signed_tx :: Tx where
  "signed_tx = \<lparr>body = \<lparr>Clauses = [call_clause [0, 1], create_clause [5]], GasPrice = 1000,
     Gas = 100000, Nonce = 7, TimeBarrier = 300, DependsOn = Some (replicate 32 9),
     Signature = [1, 2, 3]\<rparr>, cache_hash = None\<rparr>"

text \<open>Modelled from the spec: an encoder and decoder for \<open>Clause\<close> (recipient, data, value),
  written like those of the struct \<open>body\<close>, and a stand-in for the hash function.\<close>

definition example_Clause_EncodeRLP :: "Clause \<Rightarrow> error + rlp" where
  "example_Clause_EncodeRLP c =
     err_bind (enc_bigint (Value c)) (\<lambda>v.
       Inr (Lst [(case To c of None \<Rightarrow> Str [] | Some a \<Rightarrow> Str a), Str (Data c), v]))"

definition example_Clause_DecodeRLP :: "rlp \<Rightarrow> error + Clause" where
  "example_Clause_DecodeRLP x =
     (case x of
        Str b \<Rightarrow> Inl DecodeError
      | Lst fs \<Rightarrow>
          if length fs \<noteq> 3 then Inl DecodeError
          else
            err_bind (case fs ! 0 of
                        Lst xs \<Rightarrow> if xs = [] then Inr None else Inl DecodeError
                      | Str b \<Rightarrow> if b = [] then Inr None
                                 else if length b = 20 then Inr (Some b)
                                 else Inl DecodeError) (\<lambda>to.
            err_bind (dec_bytes (fs ! 1)) (\<lambda>d.
            err_bind (dec_bigint (fs ! 2)) (\<lambda>v.
              Inr \<lparr>To = to, Value = v, Data = d\<rparr>))))"

definition example_deps :: tx_deps where
  "example_deps = \<lparr>Hasher = (\<lambda>bs. take 32 (rev bs @ replicate 32 0)),
     Clause_EncodeRLP = example_Clause_EncodeRLP,
     Clause_DecodeRLP = example_Clause_DecodeRLP\<rparr>"

text \<open>Modelled from the spec: a header that is constructible, takes a signature and is
  encoded and decoded; the declaration of \<open>Header\<close> (block/header.go) is not among the
  sources.\<close>

record example_header =
  Number :: u64
  HeaderSignature :: "byte list"

definition example_header_deps :: "example_header header_deps" where
  "example_header_deps = \<lparr>
     Header_EncodeRLP = (\<lambda>h. Inr (Lst [enc_uint64 (Number h), Str (HeaderSignature h)])),
     Header_DecodeRLP = (\<lambda>x. case x of
        Str b \<Rightarrow> Inl DecodeError
      | Lst fs \<Rightarrow>
          if length fs \<noteq> 2 then Inl DecodeError
          else err_bind (dec_uint64 (fs ! 0)) (\<lambda>n.
               err_bind (dec_bytes (fs ! 1)) (\<lambda>s.
                 Inr \<lparr>Number = n, HeaderSignature = s\<rparr>))),
     Header_withSignature = (\<lambda>h sig. h\<lparr>HeaderSignature := sig\<rparr>)\<rparr>"

definition example_block :: "(example_header, Tx list) Block" where
  "example_block = Compose \<lparr>Number = 5, HeaderSignature = []\<rparr> [signed_tx, example_tx []]"


text \<open>A store: a gas price at 0, a signature at 1, the transaction \<open>signed_tx\<close> at 2, a
  transaction slice at 3, a block at 4 and another byte slice at 5.\<close>

definition example_store :: "example_header store" where
  "example_store = \<lparr>objects = (\<lambda>a. None)
       (0 := Some (BigInt 1000),
        1 := Some (ByteArray [1, 2, 3]),
        2 := Some (TxObject \<lparr>body = \<lparr>Clauses = [call_clause [0, 1], create_clause [5]],
               GasPrice = Some 0, Gas = 100000, Nonce = 7, TimeBarrier = 300,
               DependsOn = Some (replicate 32 9), Signature = Some 1\<rparr>, cache_hash = None\<rparr>),
        3 := Some (TxArray [2]),
        4 := Some (BlockObject \<lparr>header = \<lparr>Number = 5, HeaderSignature = []\<rparr>, txs = Some 3,
               cache_size = None\<rparr>),
        5 := Some (ByteArray [4, 5])),
     next_addr = 6\<rparr>"

text \<open>The encoding of the transaction \<open>example_tx []\<close>. The stores reached from
  \<open>example_store\<close> by \<open>Transactions\<close> on the block at 4 and then \<open>DecodeRLP\<close> of that encoding
  on the transaction at 2, which the first element of the returned sequence points to; and the
  stores reached by \<open>Size\<close> on the block and then the same \<open>DecodeRLP\<close>.\<close>

definition other_tx_bytes :: "byte list" where
  "other_tx_bytes = [202, 192, 1, 131, 1, 134, 160, 7, 128, 128, 128]"

definition store_after_Transactions :: "example_header store" where
  "store_after_Transactions = snd (the (Block_Transactions example_store 4))"

definition store_after_overwrite :: "example_header store" where
  "store_after_overwrite =
     snd (the (Transaction_DecodeRLP_store example_deps store_after_Transactions
                 (stream_of other_tx_bytes) 2))"



section \<open>Properties of the intrinsic gas\<close>

lemma nat_bitlen_le_iff: "nat_bitlen n \<le> k \<longleftrightarrow> n < 2 ^ k"
proof (induction n arbitrary: k rule: nat_bitlen.induct)
  case (1 n)
  show ?case
  proof (cases "n = 0")
    case True
    then show ?thesis by (simp add: nat_bitlen.simps)
  next
    case False
    show ?thesis
    proof (cases k)
      case 0
      with False show ?thesis by (simp add: nat_bitlen.simps [of n])
    next
      case (Suc j)
      have "nat_bitlen n \<le> Suc j \<longleftrightarrow> nat_bitlen (n div 2) \<le> j"
        using False by (simp add: nat_bitlen.simps [of n])
      also have "\<dots> \<longleftrightarrow> n div 2 < 2 ^ j"
        using 1 [OF False] .
      also have "\<dots> \<longleftrightarrow> n < 2 ^ Suc j"
        by auto
      finally show ?thesis using Suc by simp
    qed
  qed
qed

lemma big_BitLen_gt_64: "big_BitLen x > 64 \<longleftrightarrow> 2 ^ 64 \<le> \<bar>x\<bar>"
proof -
  have "big_BitLen x \<le> 64 \<longleftrightarrow> nat \<bar>x\<bar> < 2 ^ 64"
    unfolding big_BitLen_def by (rule nat_bitlen_le_iff)
  also have "\<dots> \<longleftrightarrow> \<bar>x\<bar> < 2 ^ 64"
    by (simp add: nat_less_iff)
  finally show ?thesis by linarith
qed

lemma uint_big_Uint64: "\<bar>x\<bar> < 2 ^ 64 \<Longrightarrow> uint (big_Uint64 x) = \<bar>x\<bar>"
  unfolding big_Uint64_def
  by (simp add: uint_word_of_int take_bit_int_eq_self)

lemma geth_IntrinsicGas_base:
  "uint (if cc then c else t) \<le> geth_IntrinsicGas t c z nz d cc True"
proof -
  have "int (length (filter (\<lambda>byt. byt \<noteq> 0) d)) \<le> int (length d)"
    by simp
  then have "0 \<le> (int (length d) - int (length (filter (\<lambda>byt. byt \<noteq> 0) d))) * uint z"
    by simp
  moreover have "0 \<le> int (length (filter (\<lambda>byt. byt \<noteq> 0) d)) * uint nz"
    by simp
  ultimately show ?thesis
    unfolding geth_IntrinsicGas_def Let_def by auto
qed

lemma geth_charges_base_cost:
  assumes "core_IntrinsicGas P = geth_IntrinsicGas (TxGas P) (TxGasContractCreation P) z nz"
  shows "charges_base_cost P"
  unfolding charges_base_cost_def assms
  using geth_IntrinsicGas_base [of _ "TxGasContractCreation P" "TxGas P" z nz] by blast

lemma example_charges_base_cost:
  "charges_base_cost example_schedule" "charges_base_cost seam_schedule"
  by (rule geth_charges_base_cost [of _ 4 68], simp add: example_schedule_def)
    (rule geth_charges_base_cost [of _ 4 "2 ^ 63"], simp add: seam_schedule_def)

lemma overpayed_le_base:
  assumes "ClauseGas P \<le> TxGas P" "ClauseGasContractCreation P \<le> TxGasContractCreation P"
  shows "overpayed P cc \<le> uint (if cc then TxGasContractCreation P else TxGas P)"
  using assms unfolding overpayed_def
  by (auto simp: uint_sub_if' word_le_def)

lemma overpayed_le_added:
  assumes "charges_base_cost P"
    and "ClauseGas P \<le> TxGas P" "ClauseGasContractCreation P \<le> TxGasContractCreation P"
  shows "overpayed P cc \<le> core_IntrinsicGas P d cc True"
proof -
  have "overpayed P cc \<le> uint (if cc then TxGasContractCreation P else TxGas P)"
    using assms(2,3) by (rule overpayed_le_base)
  also have "\<dots> \<le> core_IntrinsicGas P d cc True"
    using assms(1) unfolding charges_base_cost_def by blast
  finally show ?thesis .
qed

lemma clause_step_call_empty:
  assumes "ClauseGas P \<le> TxGas P" "To c \<noteq> None" "Data c = []"
    and "core_IntrinsicGas P [] False True = uint (TxGas P)"
  shows "clause_step P tot c = tot + uint (ClauseGas P)"
proof -
  have "uint (TxGas P - ClauseGas P) = uint (TxGas P) - uint (ClauseGas P)"
    using assms(1) by (simp add: uint_sub_if' word_le_def)
  moreover obtain a where "To c = Some a"
    using assms(2) by auto
  ultimately show ?thesis
    using assms(3,4) by (simp add: clause_step_def overpayed_def)
qed

lemma clause_loop_replicate:
  assumes "ClauseGas P \<le> TxGas P" "To c \<noteq> None" "Data c = []"
    and "core_IntrinsicGas P [] False True = uint (TxGas P)"
  shows "clause_loop P tot (replicate n c) = tot + int n * uint (ClauseGas P)"
  using assms
  by (induction n arbitrary: tot) (simp_all add: clause_step_call_empty algebra_simps)

lemma clause_step_mono:
  assumes "charges_base_cost P"
    and "ClauseGas P \<le> TxGas P" "ClauseGasContractCreation P \<le> TxGasContractCreation P"
  shows "tot \<le> clause_step P tot c"
  using overpayed_le_added [OF assms, of "To c = None" "Data c"]
  by (simp add: clause_step_def Let_def)

lemma clause_loop_mono:
  assumes "charges_base_cost P"
    and "ClauseGas P \<le> TxGas P" "ClauseGasContractCreation P \<le> TxGasContractCreation P"
  shows "tot \<le> clause_loop P tot cs"
proof (induction cs arbitrary: tot)
  case Nil
  show ?case by simp
next
  case (Cons c cs)
  have "tot \<le> clause_step P tot c" using assms by (rule clause_step_mono)
  also have "\<dots> \<le> clause_loop P (clause_step P tot c) cs" by (rule Cons.IH)
  finally show ?case by simp
qed

lemma gas_total_nonneg:
  assumes "charges_base_cost P"
    and "ClauseGas P \<le> TxGas P" "ClauseGasContractCreation P \<le> TxGasContractCreation P"
  shows "0 \<le> gas_total P c cs"
proof -
  have "uint (if To c = None then TxGasContractCreation P else TxGas P)
      \<le> core_IntrinsicGas P (Data c) (To c = None) True"
    using assms(1) unfolding charges_base_cost_def by blast
  then have "0 \<le> core_IntrinsicGas P (Data c) (To c = None) True"
    by (meson order_trans uint_ge_0)
  also have "\<dots> \<le> gas_total P c cs"
    unfolding gas_total_def using assms by (rule clause_loop_mono)
  finally show ?thesis .
qed

text \<open>Claim C1. A transaction whose clauses are \<open>N\<close> copies of one clause with a recipient
  and empty data, for \<open>N\<close> = 1, 2, 3: \<open>IntrinsicGas\<close> succeeds with the base transaction gas plus
  \<open>N - 1\<close> times the per-clause gas, and that sum does not wrap. With one clause the result is
  21000; a second clause adds \<open>ClauseGas\<close> only. Assumed of what lies outside the sources:
  the base transaction gas is 21000, the per-clause gas is not larger, and the helper
  charges exactly the base transaction gas for empty data sent to a recipient.\<close>

theorem intrinsic_gas_identical_call_clauses:
  assumes "TxGas P = 21000" and "ClauseGas P \<le> TxGas P"
    and "core_IntrinsicGas P [] False True = uint (TxGas P)"
    and "To c \<noteq> None" and "Data c = []"
    and "N \<in> {1, 2, 3}" and "Clauses (body t) = replicate N c"
  shows "Transaction_IntrinsicGas P t = Inr (TxGas P + of_nat (N - 1) * ClauseGas P)
       \<and> uint (TxGas P + of_nat (N - 1) * ClauseGas P)
           = uint (TxGas P) + int (N - 1) * uint (ClauseGas P)
       \<and> (N = 1 \<longrightarrow> Transaction_IntrinsicGas P t = Inr 21000)
       \<and> (N = 2 \<longrightarrow> Transaction_IntrinsicGas P t = Inr (21000 + ClauseGas P))"
proof -
  obtain m where N: "N = Suc m" and m: "m \<le> 2"
    using assms(6) by (cases N) auto
  have cl: "Clauses (body t) = c # replicate m c"
    using assms(7) N by simp
  obtain a where a: "To c = Some a"
    using assms(4) by auto
  have tot: "gas_total P c (replicate m c) = 21000 + int m * uint (ClauseGas P)"
    using assms(1,3,5) a clause_loop_replicate [OF assms(2,4,5,3)]
    by (simp add: gas_total_def)
  have cg: "uint (ClauseGas P) \<le> 21000"
    using assms(1,2) by (simp add: word_le_def)
  have "int m * uint (ClauseGas P) \<le> 2 * 21000"
    using m cg by (intro mult_mono) auto
  then have bound: "gas_total P c (replicate m c) < 2 ^ 64" "0 \<le> gas_total P c (replicate m c)"
    using tot by simp_all
  have "\<bar>gas_total P c (replicate m c)\<bar> = 21000 + int m * uint (ClauseGas P)"
    using bound(2) tot by simp
  then have w: "big_Uint64 (gas_total P c (replicate m c)) = TxGas P + of_nat m * ClauseGas P"
    unfolding big_Uint64_def using assms(1) by simp
  have "\<not> 64 < big_BitLen (gas_total P c (replicate m c))"
    using bound by (simp add: big_BitLen_gt_64)
  then have res: "Transaction_IntrinsicGas P t = Inr (TxGas P + of_nat m * ClauseGas P)"
    by (simp add: Transaction_IntrinsicGas_def cl w)
  have "uint (big_Uint64 (gas_total P c (replicate m c))) = gas_total P c (replicate m c)"
    using uint_big_Uint64 [of "gas_total P c (replicate m c)"] bound by simp
  then have "uint (TxGas P + of_nat m * ClauseGas P) = uint (TxGas P) + int m * uint (ClauseGas P)"
    unfolding w unfolding tot using assms(1) by simp
  with res show ?thesis
    using N assms(1) by auto
qed

theorem intrinsic_gas_identical_call_clauses_witness:
  "Transaction_IntrinsicGas example_schedule (example_tx (replicate 3 (call_clause [])))
     = Inr 53000"
  using intrinsic_gas_identical_call_clauses [of example_schedule "call_clause []" 3
      "example_tx (replicate 3 (call_clause []))"]
  by (simp add: example_schedule_def example_tx_def call_clause_def geth_IntrinsicGas_def)

text \<open>Claim C5. With no clause there is no error. With a first clause, \<open>IntrinsicGas\<close> fails
  with \<open>GasTooLarge\<close> exactly when the accumulated total needs more than 64 bits (its magnitude
  is at least \<open>2^64\<close>, which is what \<open>BitLen\<close> measures); otherwise it returns the 64-bit
  value that reads as that magnitude.\<close>

theorem intrinsic_gas_too_large_iff:
  "(Clauses (body t) = [] \<longrightarrow> Transaction_IntrinsicGas P t \<noteq> Inl GasTooLarge) \<and>
   (\<forall>firstClause rest. Clauses (body t) = firstClause # rest \<longrightarrow>
      (Transaction_IntrinsicGas P t = Inl GasTooLarge
         \<longleftrightarrow> 2 ^ 64 \<le> \<bar>gas_total P firstClause rest\<bar>) \<and>
      (\<bar>gas_total P firstClause rest\<bar> < 2 ^ 64 \<longrightarrow>
         (\<exists>w. Transaction_IntrinsicGas P t = Inr w
              \<and> uint w = \<bar>gas_total P firstClause rest\<bar>)))"
proof (intro conjI allI impI)
  assume "Clauses (body t) = []"
  then show "Transaction_IntrinsicGas P t \<noteq> Inl GasTooLarge"
    by (simp add: Transaction_IntrinsicGas_def)
next
  fix firstClause rest
  assume cl: "Clauses (body t) = firstClause # rest"
  show "Transaction_IntrinsicGas P t = Inl GasTooLarge
          \<longleftrightarrow> 2 ^ 64 \<le> \<bar>gas_total P firstClause rest\<bar>"
    using cl by (simp add: Transaction_IntrinsicGas_def Let_def big_BitLen_gt_64)
next
  fix firstClause rest
  assume cl: "Clauses (body t) = firstClause # rest"
    and fits: "\<bar>gas_total P firstClause rest\<bar> < 2 ^ 64"
  have "Transaction_IntrinsicGas P t = Inr (big_Uint64 (gas_total P firstClause rest))"
    using cl fits by (simp add: Transaction_IntrinsicGas_def Let_def big_BitLen_gt_64)
  moreover have "uint (big_Uint64 (gas_total P firstClause rest)) = \<bar>gas_total P firstClause rest\<bar>"
    using fits by (rule uint_big_Uint64)
  ultimately show "\<exists>w. Transaction_IntrinsicGas P t = Inr w
              \<and> uint w = \<bar>gas_total P firstClause rest\<bar>"
    by blast
qed

lemma gas_total_seam: "gas_total seam_schedule (call_clause [1, 1]) [] = 2 ^ 64 + 21000"
  by (simp add: gas_total_def geth_IntrinsicGas_def seam_schedule_def call_clause_def)

lemma gas_total_example:
  "gas_total example_schedule (call_clause [0, 1]) [create_clause [5]] = 69140"
  by (simp add: gas_total_def geth_IntrinsicGas_def example_schedule_def call_clause_def
      create_clause_def clause_step_def overpayed_def)

theorem intrinsic_gas_too_large_iff_witness:
  "Transaction_IntrinsicGas seam_schedule (example_tx [call_clause [1, 1]]) = Inl GasTooLarge
   \<and> (\<exists>w. Transaction_IntrinsicGas example_schedule
            (example_tx [call_clause [0, 1], create_clause [5]]) = Inr w \<and> uint w = 69140)"
  using intrinsic_gas_too_large_iff [of "example_tx [call_clause [1, 1]]" seam_schedule]
    intrinsic_gas_too_large_iff [of "example_tx [call_clause [0, 1], create_clause [5]]"
      example_schedule]
  by (simp add: example_tx_def gas_total_seam gas_total_example)

text \<open>Claim C7. With an empty clause list \<open>IntrinsicGas\<close> succeeds and returns the constant
  \<open>TxGas\<close>.\<close>

theorem intrinsic_gas_no_clauses:
  "Clauses (body t) = [] \<Longrightarrow> Transaction_IntrinsicGas P t = Inr (TxGas P)"
  by (simp add: Transaction_IntrinsicGas_def)

theorem intrinsic_gas_no_clauses_witness:
  "Transaction_IntrinsicGas example_schedule (example_tx []) = Inr 21000"
  using intrinsic_gas_no_clauses [of "example_tx []" example_schedule]
  by (simp add: example_tx_def example_schedule_def)

text \<open>Claim C10. Assumed of what lies outside the sources: the helper charges at least the
  flat base cost, and neither per-clause base cost exceeds the transaction-level base cost of
  its kind. Then the intrinsic gas added for a clause after the first is at least the amount
  subtracted for it; the running total after any number of those clauses (the loop run on a
  prefix of them) is not negative; hence a returned value reads exactly as the total, and the
  error is returned exactly when the total is at least \<open>2^64\<close>.\<close>

theorem intrinsic_gas_running_total_nonneg:
  assumes "charges_base_cost P"
    and "ClauseGas P \<le> TxGas P"
    and "ClauseGasContractCreation P \<le> TxGasContractCreation P"
    and "Clauses (body t) = firstClause # rest"
  shows "(\<forall>c \<in> set rest.
            overpayed P (To c = None) \<le> core_IntrinsicGas P (Data c) (To c = None) True)
       \<and> (\<forall>k \<le> length rest. 0 \<le> gas_total P firstClause (take k rest))
       \<and> (\<forall>w. Transaction_IntrinsicGas P t = Inr w \<longrightarrow> uint w = gas_total P firstClause rest)
       \<and> (Transaction_IntrinsicGas P t = Inl GasTooLarge
            \<longleftrightarrow> 2 ^ 64 \<le> gas_total P firstClause rest)"
proof (intro conjI ballI allI impI)
  fix c
  show "overpayed P (To c = None) \<le> core_IntrinsicGas P (Data c) (To c = None) True"
    using assms(1,2,3) by (rule overpayed_le_added)
next
  fix k
  show "0 \<le> gas_total P firstClause (take k rest)"
    using assms(1,2,3) by (rule gas_total_nonneg)
next
  fix w
  assume r: "Transaction_IntrinsicGas P t = Inr w"
  have nn: "0 \<le> gas_total P firstClause rest"
    using assms(1,2,3) by (rule gas_total_nonneg)
  from r have "\<not> 64 < big_BitLen (gas_total P firstClause rest)"
    and w: "w = big_Uint64 (gas_total P firstClause rest)"
    using assms(4) by (auto simp: Transaction_IntrinsicGas_def Let_def split: if_splits)
  then have "\<bar>gas_total P firstClause rest\<bar> < 2 ^ 64"
    by (simp add: big_BitLen_gt_64)
  then show "uint w = gas_total P firstClause rest"
    unfolding w using nn uint_big_Uint64 [of "gas_total P firstClause rest"] by simp
next
  have nn: "0 \<le> gas_total P firstClause rest"
    using assms(1,2,3) by (rule gas_total_nonneg)
  then show "Transaction_IntrinsicGas P t = Inl GasTooLarge
            \<longleftrightarrow> 2 ^ 64 \<le> gas_total P firstClause rest"
    using assms(4) by (simp add: Transaction_IntrinsicGas_def Let_def big_BitLen_gt_64)
qed

theorem intrinsic_gas_running_total_nonneg_witness:
  "0 \<le> gas_total example_schedule (call_clause [0, 1]) (take 1 [create_clause [5]])
   \<and> overpayed example_schedule True \<le> core_IntrinsicGas example_schedule [5] True True"
proof -
  have h1: "ClauseGas example_schedule \<le> TxGas example_schedule"
    by (simp add: example_schedule_def)
  have h2: "ClauseGasContractCreation example_schedule \<le> TxGasContractCreation example_schedule"
    by (simp add: example_schedule_def)
  have h3: "Clauses (body (example_tx [call_clause [0, 1], create_clause [5]]))
      = call_clause [0, 1] # [create_clause [5]]"
    by (simp add: example_tx_def)
  note r = intrinsic_gas_running_total_nonneg [OF example_charges_base_cost(1) h1 h2 h3]
  from r have "overpayed example_schedule (To (create_clause [5]) = None)
      \<le> core_IntrinsicGas example_schedule (Data (create_clause [5]))
          (To (create_clause [5]) = None) True"
    by simp
  moreover from r have "0 \<le> gas_total example_schedule (call_clause [0, 1])
      (take 1 [create_clause [5]])"
    by (elim conjE allE [of _ 1]) simp
  ultimately show ?thesis
    by (simp add: create_clause_def)
qed

section \<open>The canonical encoding is read back\<close>

lemma be_nat_snoc: "be_nat (bs @ [b]) = be_nat bs * 256 + unat b"
  by (simp add: be_nat_def)

lemma be_nat_Nil: "be_nat [] = 0"
  by (simp add: be_nat_def)

lemma unat_byte_of_mod: "unat (of_nat (n mod 256) :: byte) = n mod 256"
  by (simp add: unat_of_nat)

lemma be_nat_be_bytes: "be_nat (be_bytes n) = n"
proof (induction n rule: be_bytes.induct)
  case (1 n)
  show ?case
  proof (cases "n = 0")
    case True
    then show ?thesis by (simp add: be_bytes.simps be_nat_Nil)
  next
    case False
    then have "be_nat (be_bytes n) = be_nat (be_bytes (n div 256)) * 256 + n mod 256"
      by (simp add: be_bytes.simps [of n] be_nat_snoc unat_byte_of_mod)
    then show ?thesis using 1 [OF False] by simp
  qed
qed

lemma be_bytes_Nil_iff: "be_bytes n = [] \<longleftrightarrow> n = 0"
  by (simp add: be_bytes.simps [of n])

lemma hd_be_bytes: "n \<noteq> 0 \<Longrightarrow> hd (be_bytes n) \<noteq> 0"
proof (induction n rule: be_bytes.induct)
  case (1 n)
  show ?case
  proof (cases "n div 256 = 0")
    case True
    then have "n < 256" by (simp add: div_eq_0_iff)
    then have "be_bytes n = [of_nat n]"
      using "1.prems" by (simp add: be_bytes.simps [of n] be_bytes.simps [of 0])
    moreover have "(of_nat n :: byte) \<noteq> 0"
      using \<open>n < 256\<close> "1.prems" by (simp add: of_nat_0_eq_iff unat_of_nat word_eq_iff_unsigned [where ?'a = nat])
    ultimately show ?thesis by simp
  next
    case False
    then have "be_bytes (n div 256) \<noteq> []" by (simp add: be_bytes_Nil_iff)
    then have "hd (be_bytes n) = hd (be_bytes (n div 256))"
      using "1.prems" by (simp add: be_bytes.simps [of n])
    then show ?thesis using 1(1) [OF "1.prems" False] by simp
  qed
qed

lemma length_be_bytes_le: "n < 256 ^ k \<Longrightarrow> length (be_bytes n) \<le> k"
proof (induction n arbitrary: k rule: be_bytes.induct)
  case (1 n)
  show ?case
  proof (cases "n = 0")
    case True
    then show ?thesis by (simp add: be_bytes.simps)
  next
    case False
    then obtain j where k: "k = Suc j"
      using "1.prems" by (cases k) auto
    have "n div 256 < 256 ^ j"
      using "1.prems" k by (simp add: less_mult_imp_div_less)
    then have "length (be_bytes (n div 256)) \<le> j"
      using 1(1) [OF False] by simp
    then show ?thesis using False k by (simp add: be_bytes.simps [of n])
  qed
qed

lemma read_size_be_bytes:
  assumes "56 \<le> sz"
  shows "read_size (be_bytes sz @ tail) (length (be_bytes sz)) = Inr sz"
proof -
  have ne: "be_bytes sz \<noteq> []"
    using assms by (simp add: be_bytes_Nil_iff)
  then have "hd (be_bytes sz @ tail) \<noteq> 0"
    using assms hd_be_bytes [of sz] by simp
  then show ?thesis
    using assms by (simp add: read_size_def be_nat_be_bytes)
qed

lemma take_payload_append: "take_payload (p @ rest) (length p) = Inr (p, rest)"
  by (simp add: take_payload_def)

lemma length_be_bytes_size:
  assumes "56 \<le> sz" "sz < 2 ^ 64"
  shows "1 \<le> length (be_bytes sz)" "length (be_bytes sz) \<le> 8"
proof -
  show "1 \<le> length (be_bytes sz)"
    using assms(1) be_bytes_Nil_iff [of sz] by (cases "be_bytes sz") auto
  have "sz < 256 ^ 8" using assms(2) by simp
  then show "length (be_bytes sz) \<le> 8" by (rule length_be_bytes_le)
qed

lemma unat_of_nat_byte: "n < 256 \<Longrightarrow> unat (of_nat n :: byte) = n"
  by (simp add: unat_of_nat)

lemma split_item_puthead:
  assumes "length p < 2 ^ 64"
    and "(st = 0x80 \<and> lt = 0xB7 \<and> \<not> (length p = 1 \<and> unat (hd p) < 0x80))
         \<or> (st = 0xC0 \<and> lt = 0xF7)"
  shows "split_item (puthead st lt (length p) @ p @ rest) = Inr (st = 0xC0, p, rest)"
proof (cases "length p < 56")
  case True
  have u: "unat (of_nat (st + length p) :: byte) = st + length p"
    by (rule unat_of_nat_byte) (use True assms(2) in auto)
  have "split_item (of_nat (st + length p) # p @ rest) = Inr (st = 0xC0, p, rest)"
    unfolding split_item_def list.case Let_def u
    using True assms(2) by (auto simp: take_payload_append)
  then show ?thesis
    using True by (simp add: puthead_def)
next
  case False
  then have big: "56 \<le> length p" by simp
  define l where "l = length (be_bytes (length p))"
  have l: "1 \<le> l" "l \<le> 8"
    unfolding l_def using length_be_bytes_size [OF big assms(1)] by simp_all
  have u: "unat (of_nat (lt + l) :: byte) = lt + l"
    by (rule unat_of_nat_byte) (use l assms(2) in auto)
  have rs: "read_size (be_bytes (length p) @ p @ rest) l = Inr (length p)"
    unfolding l_def using big by (rule read_size_be_bytes)
  have dr: "drop l (be_bytes (length p) @ p @ rest) = p @ rest"
    unfolding l_def by simp
  have "split_item (of_nat (lt + l) # be_bytes (length p) @ p @ rest)
        = Inr (st = 0xC0, p, rest)"
    unfolding split_item_def list.case Let_def u
    using l assms(2) rs dr by (auto simp: take_payload_append)
  then show ?thesis
    using False by (simp add: puthead_def Let_def l_def)
qed

lemma length_payload_le: "length (payload_of x) \<le> length (rlp_encode x)"
  by (cases x) (auto simp: Let_def)

lemma byte_le_7F: "(b :: byte) \<le> 0x7F \<longleftrightarrow> unat b < 0x80"
  by (auto simp: word_le_nat_alt)

lemma split_item_encode:
  assumes "length (rlp_encode x) < 2 ^ 64"
  shows "split_item (rlp_encode x @ rest) = Inr (is_Lst x, payload_of x, rest)"
proof (cases x)
  case (Str b)
  show ?thesis
  proof (cases "length b = 1 \<and> hd b \<le> 0x7F")
    case True
    then obtain c where b: "b = [c]" and c: "unat c < 0x80" "c \<le> 0x7F"
      by (cases b) (auto simp: byte_le_7F)
    then show ?thesis using Str by (simp add: split_item_def)
  next
    case False
    have len: "length b < 2 ^ 64"
      using assms length_payload_le [of x] Str by simp
    have "split_item (puthead 0x80 0xB7 (length b) @ b @ rest) = Inr ((0x80 :: nat) = 0xC0, b, rest)"
      using len False by (intro split_item_puthead) (auto simp: byte_le_7F)
    then show ?thesis using Str False by auto
  qed
next
  case (Lst xs)
  define p where "p = concat (map rlp_encode xs)"
  have len: "length p < 2 ^ 64"
    using assms length_payload_le [of x] Lst by (simp add: p_def)
  have "split_item (puthead 0xC0 0xF7 (length p) @ p @ rest) = Inr ((0xC0 :: nat) = 0xC0, p, rest)"
    using len by (intro split_item_puthead) auto
  then show ?thesis using Lst by (simp add: p_def Let_def)
qed

lemma rlp_encode_not_Nil: "rlp_encode x \<noteq> []"
  by (cases x) (auto simp: puthead_def Let_def)

lemma decode_list_Nil: "decode_list [] = Inr []"
  by (simp add: decode_list.simps)

lemma decode_list_encode_step:
  assumes "length (rlp_encode x) < 2 ^ 64"
    and "\<And>xs. x = Lst xs \<Longrightarrow> decode_list (concat (map rlp_encode xs)) = Inr xs"
  shows "decode_list (rlp_encode x @ rest)
         = (case decode_list rest of Inl e \<Rightarrow> Inl e | Inr ys \<Rightarrow> Inr (x # ys))"
proof -
  have d: "decode_list (rlp_encode x @ rest)
      = (case (if is_Lst x
               then (case decode_list (payload_of x) of
                       Inl e \<Rightarrow> Inl e
                     | Inr xs \<Rightarrow> Inr (Lst xs))
               else Inr (Str (payload_of x))) of
           Inl e \<Rightarrow> Inl e
         | Inr y \<Rightarrow>
             (case decode_list rest of
                Inl e \<Rightarrow> Inl e
              | Inr ys \<Rightarrow> Inr (y # ys)))"
    by (subst decode_list.simps) (simp add: rlp_encode_not_Nil split_item_encode [OF assms(1)])
  show ?thesis
  proof (cases x)
    case (Str b)
    show ?thesis unfolding d by (simp add: Str split: sum.split)
  next
    case (Lst xs)
    show ?thesis unfolding d using assms(2) [OF Lst] by (simp add: Lst split: sum.split)
  qed
qed

lemma decode_list_concat:
  assumes "\<And>x rest. x \<in> set xs \<Longrightarrow> decode_list (rlp_encode x @ rest)
         = (case decode_list rest of Inl e \<Rightarrow> Inl e | Inr ys \<Rightarrow> Inr (x # ys))"
  shows "decode_list (concat (map rlp_encode xs)) = Inr xs"
  using assms by (induction xs) (simp_all add: decode_list_Nil)

lemma length_elem_le_concat:
  "x \<in> set xs \<Longrightarrow> length (rlp_encode x) \<le> length (concat (map rlp_encode xs))"
  by (induction xs) auto

lemma decode_list_encode:
  "length (rlp_encode x) < 2 ^ 64 \<Longrightarrow>
     decode_list (rlp_encode x @ rest)
       = (case decode_list rest of Inl e \<Rightarrow> Inl e | Inr ys \<Rightarrow> Inr (x # ys))"
proof (induction x arbitrary: rest)
  case (Str b)
  then show ?case by (intro decode_list_encode_step) simp_all
next
  case (Lst xs)
  have sub: "length (rlp_encode y) < 2 ^ 64" if "y \<in> set xs" for y
  proof -
    have "length (rlp_encode y) \<le> length (payload_of (Lst xs))"
      using that by (simp add: length_elem_le_concat)
    also have "\<dots> \<le> length (rlp_encode (Lst xs))" by (rule length_payload_le)
    finally show ?thesis using Lst.prems by simp
  qed
  have "decode_list (concat (map rlp_encode xs)) = Inr xs"
    by (rule decode_list_concat) (use Lst.IH sub in blast)
  then show ?case
    using Lst.prems by (intro decode_list_encode_step) simp_all
qed

lemma decode_list_payload:
  assumes "length (rlp_encode (Lst xs)) < 2 ^ 64"
  shows "decode_list (concat (map rlp_encode xs)) = Inr xs"
proof (rule decode_list_concat)
  fix x rest assume "x \<in> set xs"
  then have "length (rlp_encode x) \<le> length (payload_of (Lst xs))"
    by (simp add: length_elem_le_concat)
  also have "\<dots> \<le> length (rlp_encode (Lst xs))" by (rule length_payload_le)
  finally have "length (rlp_encode x) < 2 ^ 64" using assms by simp
  then show "decode_list (rlp_encode x @ rest)
         = (case decode_list rest of Inl e \<Rightarrow> Inl e | Inr ys \<Rightarrow> Inr (x # ys))"
    by (rule decode_list_encode)
qed

lemma rlp_decode_encode:
  assumes "length (rlp_encode x) < 2 ^ 64"
  shows "rlp_decode (rlp_encode x @ rest) = Inr (x, rest)"
proof (cases x)
  case (Str b)
  then show ?thesis
    using split_item_encode [OF assms, of rest] by (simp add: rlp_decode_def del: rlp_encode.simps)
next
  case (Lst xs)
  then show ?thesis
    using split_item_encode [OF assms, of rest] decode_list_payload [of xs] assms
    by (simp add: rlp_decode_def del: rlp_encode.simps)
qed

section \<open>Encoding, decoding, hashes and sizes\<close>

lemma err_bind_Inr [simp]: "err_bind (Inr x) f = f x"
  by (simp add: err_bind_def)

lemma err_bind_Inl [simp]: "err_bind (Inl e) f = Inl e"
  by (simp add: err_bind_def)

lemma dec_enc_uint64: "dec_uint64 (enc_uint64 i) = Inr i"
proof -
  have "unat i < 256 ^ 8"
    using unsigned_less [of i, where ?'a = nat] by simp
  then have "length (be_bytes (unat i)) \<le> 8"
    by (rule length_be_bytes_le)
  moreover have "be_bytes (unat i) \<noteq> [] \<Longrightarrow> hd (be_bytes (unat i)) \<noteq> 0"
    using hd_be_bytes [of "unat i"] by (simp add: be_bytes_Nil_iff)
  ultimately show ?thesis
    by (auto simp: dec_uint64_def enc_uint64_def be_nat_be_bytes)
qed

lemma dec_enc_bigint: "enc_bigint i = Inr x \<Longrightarrow> dec_bigint x = Inr i"
proof -
  assume a: "enc_bigint i = Inr x"
  then have i: "0 \<le> i" and x: "x = Str (be_bytes (nat i))"
    by (auto simp: enc_bigint_def split: if_splits)
  have "be_bytes (nat i) \<noteq> [] \<Longrightarrow> hd (be_bytes (nat i)) \<noteq> 0"
    using hd_be_bytes [of "nat i"] by (simp add: be_bytes_Nil_iff)
  then show ?thesis
    using i by (auto simp: dec_bigint_def x be_nat_be_bytes)
qed

lemma enc_bigint_nonneg: "0 \<le> i \<Longrightarrow> \<exists>x. enc_bigint i = Inr x"
  by (simp add: enc_bigint_def)

lemma dec_enc_hash_ptr:
  "(case p of None \<Rightarrow> True | Some h \<Rightarrow> length h = 32) \<Longrightarrow> dec_hash_ptr (enc_hash_ptr p) = Inr p"
  by (cases p) (auto simp: dec_hash_ptr_def enc_hash_ptr_def)

lemma map_err_roundtrip:
  assumes "list_all (\<lambda>c. case enc c of Inl e \<Rightarrow> False | Inr x \<Rightarrow> dec x = Inr c) cs"
  shows "\<exists>xs. map_err enc cs = Inr xs \<and> map_err dec xs = Inr cs"
  using assms
proof (induction cs)
  case Nil
  show ?case by simp
next
  case (Cons c cs)
  from Cons.prems obtain x where x: "enc c = Inr x" "dec x = Inr c"
    by (auto split: sum.splits)
  from Cons obtain xs where xs: "map_err enc cs = Inr xs" "map_err dec xs = Inr cs"
    by auto
  show ?case using x xs by simp
qed

lemma body_roundtrip:
  assumes "valid_body X b"
  shows "\<exists>x. body_rlp X b = Inr x \<and> rlp_body X x = Inr b"
proof -
  from assms have cl: "list_all (\<lambda>c. case Clause_EncodeRLP X c of Inl e \<Rightarrow> False
      | Inr x \<Rightarrow> Clause_DecodeRLP X x = Inr c) (Clauses b)"
    and gp: "0 \<le> GasPrice b"
    and dep: "case DependsOn b of None \<Rightarrow> True | Some h \<Rightarrow> length h = 32"
    by (simp_all add: valid_body_def clause_roundtrips_def [abs_def])
  from map_err_roundtrip [OF cl] obtain cs
    where cs: "map_err (Clause_EncodeRLP X) (Clauses b) = Inr cs"
      "map_err (Clause_DecodeRLP X) cs = Inr (Clauses b)"
    by blast
  from enc_bigint_nonneg [OF gp] obtain g where g: "enc_bigint (GasPrice b) = Inr g"
    by blast
  have "body_rlp X b = Inr (Lst [Lst cs, g, enc_uint64 (Gas b), enc_uint64 (Nonce b),
      enc_uint64 (TimeBarrier b), enc_hash_ptr (DependsOn b), Str (Signature b)])"
    by (simp add: body_rlp_def cs g)
  moreover have "rlp_body X (Lst [Lst cs, g, enc_uint64 (Gas b), enc_uint64 (Nonce b),
      enc_uint64 (TimeBarrier b), enc_hash_ptr (DependsOn b), Str (Signature b)]) = Inr b"
    by (simp add: rlp_body_def dec_clauses_def cs dec_enc_bigint [OF g] dec_enc_uint64
        dec_enc_hash_ptr [OF dep] dec_bytes_def)
  ultimately show ?thesis by blast
qed

lemma stream_of_encode: "length (rlp_encode x) < 2 ^ 64 \<Longrightarrow> stream_of (rlp_encode x) = Inr x"
  using rlp_decode_encode [of x "[]"] by (simp add: stream_of_def)

lemma tx_roundtrip:
  assumes "valid_body X (body t)"
  shows "\<exists>bs. Transaction_EncodeRLP X t = Inr bs \<and>
           (length bs < 2 ^ 64 \<longrightarrow>
              Transaction_DecodeRLP X (stream_of bs) r = (None, \<lparr>body = body t, cache_hash = None\<rparr>))"
proof -
  from body_roundtrip [OF assms] obtain x
    where x: "body_rlp X (body t) = Inr x" "rlp_body X x = Inr (body t)"
    by blast
  have "Transaction_EncodeRLP X t = Inr (rlp_encode x)"
    by (simp add: Transaction_EncodeRLP_def x)
  moreover have "Transaction_DecodeRLP X (stream_of (rlp_encode x)) r
      = (None, \<lparr>body = body t, cache_hash = None\<rparr>)" if "length (rlp_encode x) < 2 ^ 64"
    by (simp add: Transaction_DecodeRLP_def stream_of_encode [OF that] x)
  ultimately show ?thesis by blast
qed

lemma dec_tx_body: "rlp_body X x = Inr b \<Longrightarrow> dec_tx X x = Inr \<lparr>body = b, cache_hash = None\<rparr>"
  by (simp add: dec_tx_def Transaction_DecodeRLP_def)

lemma txs_roundtrip:
  assumes "list_all (\<lambda>t. valid_body X (body t)) ts"
  shows "\<exists>xs. map_err (\<lambda>t. body_rlp X (body t)) ts = Inr xs \<and>
           map_err (dec_tx X) xs = Inr (map (\<lambda>t. \<lparr>body = body t, cache_hash = None\<rparr>) ts)"
  using assms
proof (induction ts)
  case Nil
  show ?case by simp
next
  case (Cons t ts)
  from Cons.prems have "valid_body X (body t)" by simp
  from body_roundtrip [OF this] obtain x
    where x: "body_rlp X (body t) = Inr x" "rlp_body X x = Inr (body t)"
    by blast
  from Cons obtain xs where xs: "map_err (\<lambda>t. body_rlp X (body t)) ts = Inr xs"
    "map_err (dec_tx X) xs = Inr (map (\<lambda>t. \<lparr>body = body t, cache_hash = None\<rparr>) ts)"
    by auto
  show ?case using x(1) xs dec_tx_body [OF x(2)] by simp
qed

lemma block_roundtrip:
  assumes "valid_block X HX b"
  shows "\<exists>bs. Block_EncodeRLP X HX b = Inr bs \<and>
           (length bs < 2 ^ 64 \<longrightarrow>
              Block_DecodeRLP X HX (stream_of bs) r
                = (None, \<lparr>header = header b,
                          txs = map (\<lambda>t. \<lparr>body = body t, cache_hash = None\<rparr>) (txs b),
                          cache_size = None\<rparr>))"
proof -
  from assms obtain h where h: "Header_EncodeRLP HX (header b) = Inr h"
    "Header_DecodeRLP HX h = Inr (header b)"
    by (auto simp: valid_block_def header_roundtrips_def split: sum.splits)
  from assms have "list_all (\<lambda>t. valid_body X (body t)) (txs b)"
    by (simp add: valid_block_def)
  from txs_roundtrip [OF this] obtain xs
    where xs: "map_err (\<lambda>t. body_rlp X (body t)) (txs b) = Inr xs"
      "map_err (dec_tx X) xs = Inr (map (\<lambda>t. \<lparr>body = body t, cache_hash = None\<rparr>) (txs b))"
    by blast
  have e: "block_rlp X HX b = Inr (Lst [h, Lst xs])"
    by (simp add: block_rlp_def h xs)
  have d: "rlp_payload X HX (Lst [h, Lst xs])
      = Inr (header b, map (\<lambda>t. \<lparr>body = body t, cache_hash = None\<rparr>) (txs b))"
    by (simp add: rlp_payload_def h dec_txs_def xs)
  have "Block_EncodeRLP X HX b = Inr (rlp_encode (Lst [h, Lst xs]))"
    by (simp add: Block_EncodeRLP_def e)
  moreover have "Block_DecodeRLP X HX (stream_of (rlp_encode (Lst [h, Lst xs]))) r
      = (None, \<lparr>header = header b,
                txs = map (\<lambda>t. \<lparr>body = body t, cache_hash = None\<rparr>) (txs b),
                cache_size = None\<rparr>)"
    if "length (rlp_encode (Lst [h, Lst xs])) < 2 ^ 64"
    by (simp add: Block_DecodeRLP_def stream_of_encode [OF that] d del: rlp_encode.simps)
  ultimately show ?thesis by blast
qed

text \<open>Claim C4. \<open>SigningHash\<close> is the hash of the canonical encoding of the ordered tuple
  of \<open>clauses\<close>, \<open>gas_price\<close>, \<open>gas\<close>, \<open>nonce\<close>, \<open>time_barrier\<close>, \<open>depends_on\<close>; it is the
  list that \<open>EncodeRLP\<close> encodes without its last element, which is the signature; two
  transactions that agree in the six fields have the same \<open>SigningHash\<close>, whatever their
  signatures.\<close>

theorem signing_hash_is_hash_of_unsigned_tuple:
  "Transaction_SigningHash X t = Hasher X (spec_encode_tuple (spec_signing_fields X t))
   \<and> (\<forall>fs. body_rlp X (body u) = Inr (Lst fs) \<longrightarrow>
         signing_rlp X (body u) = Inr (Lst (butlast fs)) \<and> last fs = Str (Signature (body u)))
   \<and> (same_unsigned_fields t t' \<longrightarrow> Transaction_SigningHash X t = Transaction_SigningHash X t')"
proof -
  have "Transaction_SigningHash X t = Hasher X (spec_encode_tuple (spec_signing_fields X t))"
    by (simp add: Transaction_SigningHash_def spec_encode_tuple_def spec_signing_fields_def
        signing_rlp_def err_bind_def split: sum.splits)
  moreover have "signing_rlp X (body u) = Inr (Lst (butlast fs))
      \<and> last fs = Str (Signature (body u))" if "body_rlp X (body u) = Inr (Lst fs)" for fs
    using that by (auto simp: body_rlp_def signing_rlp_def err_bind_def split: sum.splits)
  moreover have "Transaction_SigningHash X t = Transaction_SigningHash X t'"
    if "same_unsigned_fields t t'"
    using that by (simp add: same_unsigned_fields_def Transaction_SigningHash_def signing_rlp_def)
  ultimately show ?thesis by blast
qed

lemma signed_tx_rlp:
  "body_rlp example_deps (body signed_tx)
     = Inr (Lst [Lst [Lst [Str (replicate 20 1), Str [0, 1], Str []],
                      Lst [Str [], Str [5], Str []]],
                 Str [3, 232], Str [1, 134, 160], Str [7], Str [1, 44], Str (replicate 32 9),
                 Str [1, 2, 3]])"
  by (simp add: body_rlp_def signed_tx_def example_deps_def example_Clause_EncodeRLP_def
      call_clause_def create_clause_def enc_bigint_def enc_uint64_def enc_hash_ptr_def
      be_bytes.simps)

theorem signing_hash_is_hash_of_unsigned_tuple_witness:
  "signing_rlp example_deps (body signed_tx)
     = Inr (Lst [Lst [Lst [Str (replicate 20 1), Str [0, 1], Str []],
                      Lst [Str [], Str [5], Str []]],
                 Str [3, 232], Str [1, 134, 160], Str [7], Str [1, 44], Str (replicate 32 9)])
   \<and> Transaction_SigningHash example_deps signed_tx
       = Transaction_SigningHash example_deps
           (signed_tx\<lparr>body := (body signed_tx)\<lparr>Signature := [4, 5]\<rparr>\<rparr>)"
proof -
  note r = signing_hash_is_hash_of_unsigned_tuple [of example_deps signed_tx signed_tx
      "signed_tx\<lparr>body := (body signed_tx)\<lparr>Signature := [4, 5]\<rparr>\<rparr>"]
  have "same_unsigned_fields signed_tx (signed_tx\<lparr>body := (body signed_tx)\<lparr>Signature := [4, 5]\<rparr>\<rparr>)"
    by (simp add: same_unsigned_fields_def)
  with r have "Transaction_SigningHash example_deps signed_tx
       = Transaction_SigningHash example_deps
           (signed_tx\<lparr>body := (body signed_tx)\<lparr>Signature := [4, 5]\<rparr>\<rparr>)"
    by blast
  moreover from r signed_tx_rlp have "signing_rlp example_deps (body signed_tx)
     = Inr (Lst [Lst [Lst [Str (replicate 20 1), Str [0, 1], Str []],
                      Lst [Str [], Str [5], Str []]],
                 Str [3, 232], Str [1, 134, 160], Str [7], Str [1, 44], Str (replicate 32 9)])"
    by simp
  ultimately show ?thesis by blast
qed

text \<open>Claim C2. A valid transaction is encodable, and where its encoding is shorter than
  \<open>2^64\<close> bytes (every Go slice is), \<open>DecodeRLP\<close> on that encoding, into any receiver,
  succeeds with a transaction logically equal to it; the same for a valid block. Clauses may
  be empty or not, \<open>DependsOn\<close> and the signature present or not.\<close>

theorem encode_decode_roundtrip:
  "(valid_body X (body t) \<longrightarrow>
      (\<exists>bs. Transaction_EncodeRLP X t = Inr bs \<and>
         (length bs < 2 ^ 64 \<longrightarrow>
            (\<exists>t'. Transaction_DecodeRLP X (stream_of bs) r = (None, t') \<and> tx_equal t' t)))) \<and>
   (valid_block X HX b \<longrightarrow>
      (\<exists>bs. Block_EncodeRLP X HX b = Inr bs \<and>
         (length bs < 2 ^ 64 \<longrightarrow>
            (\<exists>b'. Block_DecodeRLP X HX (stream_of bs) rb = (None, b') \<and> block_equal b' b))))"
proof (rule conjI; rule impI)
  assume "valid_body X (body t)"
  from tx_roundtrip [OF this, of r] show "\<exists>bs. Transaction_EncodeRLP X t = Inr bs \<and>
         (length bs < 2 ^ 64 \<longrightarrow>
            (\<exists>t'. Transaction_DecodeRLP X (stream_of bs) r = (None, t') \<and> tx_equal t' t))"
    by (auto simp: tx_equal_def)
next
  assume "valid_block X HX b"
  have eq: "block_equal \<lparr>header = header b,
      txs = map (\<lambda>t. \<lparr>body = body t, cache_hash = None\<rparr>) (txs b), cache_size = None\<rparr> b"
    by (simp add: block_equal_def list_all2_map1 tx_equal_def list.rel_refl)
  from block_roundtrip [OF \<open>valid_block X HX b\<close>, of rb] eq
  show "\<exists>bs. Block_EncodeRLP X HX b = Inr bs \<and>
         (length bs < 2 ^ 64 \<longrightarrow>
            (\<exists>b'. Block_DecodeRLP X HX (stream_of bs) rb = (None, b') \<and> block_equal b' b))"
    by auto
qed

text \<open>The example encoder and decoder of clauses and of headers take every well-formed value
  there and back, so the valid transactions and blocks over them are many.\<close>

lemma example_clause_roundtrips:
  assumes "0 \<le> Value c" and "case To c of None \<Rightarrow> True | Some a \<Rightarrow> length a = 20"
  shows "clause_roundtrips example_deps c"
proof -
  from enc_bigint_nonneg [OF assms(1)] obtain v where v: "enc_bigint (Value c) = Inr v"
    by blast
  have to: "(case (case To c of None \<Rightarrow> Str [] | Some a \<Rightarrow> Str a) of
              Lst xs \<Rightarrow> if xs = [] then Inr None else Inl DecodeError
            | Str b \<Rightarrow> if b = [] then Inr None
                       else if length b = 20 then Inr (Some b)
                       else Inl DecodeError) = Inr (To c)"
    using assms(2) by (cases "To c") auto
  show ?thesis
    by (simp add: clause_roundtrips_def example_deps_def example_Clause_EncodeRLP_def
        example_Clause_DecodeRLP_def v to dec_bytes_def dec_enc_bigint [OF v])
qed

lemma example_header_roundtrips: "header_roundtrips example_header_deps h"
  by (simp add: header_roundtrips_def example_header_deps_def dec_enc_uint64 dec_bytes_def)

lemma example_tx_rlp:
  "body_rlp example_deps (body (example_tx []))
     = Inr (Lst [Lst [], Str [1], Str [1, 134, 160], Str [7], Str [], Str [], Str []])"
  by (simp add: body_rlp_def example_tx_def example_deps_def enc_bigint_def enc_uint64_def
      enc_hash_ptr_def be_bytes.simps)

lemma signed_tx_bytes:
  "Transaction_EncodeRLP example_deps signed_tx
     = Inr ([248, 79, 222, 217, 148] @ replicate 20 1 @ [130, 0, 1, 128, 195, 128, 5, 128,
            130, 3, 232, 131, 1, 134, 160, 7, 130, 1, 44, 160] @ replicate 32 9 @ [131, 1, 2, 3])"
  by (simp add: Transaction_EncodeRLP_def signed_tx_rlp puthead_def be_bytes.simps)

lemma example_block_bytes:
  "Block_EncodeRLP example_deps example_header_deps example_block
     = Inr ([248, 97, 194, 5, 128, 248, 92, 248, 79, 222, 217, 148] @ replicate 20 1 @
            [130, 0, 1, 128, 195, 128, 5, 128, 130, 3, 232, 131, 1, 134, 160, 7, 130, 1, 44, 160]
            @ replicate 32 9 @ [131, 1, 2, 3, 202, 192, 1, 131, 1, 134, 160, 7, 128, 128, 128])"
  by (simp add: Block_EncodeRLP_def block_rlp_def example_block_def Compose_def
      example_header_deps_def signed_tx_rlp example_tx_rlp enc_uint64_def puthead_def
      be_bytes.simps)

lemma example_valid:
  "valid_body example_deps (body signed_tx)"
  "valid_body example_deps (body (example_tx []))"
  "valid_block example_deps example_header_deps example_block"
  by (simp_all add: valid_block_def valid_body_def header_roundtrips_def clause_roundtrips_def
      example_block_def Compose_def example_tx_def signed_tx_def example_deps_def
      example_header_deps_def example_Clause_EncodeRLP_def example_Clause_DecodeRLP_def
      call_clause_def create_clause_def enc_bigint_def dec_bigint_def dec_bytes_def
      enc_uint64_def dec_uint64_def be_bytes.simps be_nat_def)

theorem encode_decode_roundtrip_witness:
  "(\<exists>bs t'. Transaction_EncodeRLP example_deps signed_tx = Inr bs
       \<and> Transaction_DecodeRLP example_deps (stream_of bs) new_Transaction = (None, t')
       \<and> tx_equal t' signed_tx) \<and>
   (\<exists>bs b'. Block_EncodeRLP example_deps example_header_deps example_block = Inr bs
       \<and> Block_DecodeRLP example_deps example_header_deps (stream_of bs)
            (Compose \<lparr>Number = 0, HeaderSignature = []\<rparr> []) = (None, b')
       \<and> block_equal b' example_block)"
  using encode_decode_roundtrip [of example_deps signed_tx new_Transaction example_header_deps
      example_block "Compose \<lparr>Number = 0, HeaderSignature = []\<rparr> []"]
  by (simp add: example_valid signed_tx_bytes example_block_bytes)

lemma split_item_error: "split_item bs = Inl e \<Longrightarrow> e = DecodeError"
  by (auto simp: split_item_def read_size_def take_payload_def Let_def
      split: list.splits if_splits sum.splits prod.splits)

lemma decode_list_error: "decode_list bs = Inl e \<Longrightarrow> e = DecodeError"
proof (induction bs rule: decode_list.induct)
  case (1 bs)
  show ?case
  proof (cases "bs = []")
    case True
    with "1.prems" show ?thesis by (simp add: decode_list.simps)
  next
    case False
    show ?thesis
    proof (cases "split_item bs")
      case (Inl e')
      with "1.prems" False split_item_error [of bs e'] show ?thesis
        by (simp add: decode_list.simps [of bs])
    next
      case (Inr x)
      obtain is_list payload rest where x: "x = (is_list, payload, rest)"
        by (cases x) auto
      note ih1 = "1.IH"(1) [OF False Inr, of is_list "(payload, rest)" payload rest]
      note ih2 = "1.IH"(2) [OF False Inr, of is_list "(payload, rest)" payload rest]
      from "1.prems" False Inr x ih1 ih2 show ?thesis
        by (auto simp: decode_list.simps [of bs] split: if_splits sum.splits)
    qed
  qed
qed

lemma stream_of_error: "stream_of bs = Inl e \<Longrightarrow> e = DecodeError"
  by (auto simp: stream_of_def rlp_decode_def split: sum.splits prod.splits if_splits
      dest: split_item_error decode_list_error)

lemma map_err_error:
  assumes "\<And>x e. f x = Inl e \<Longrightarrow> e = DecodeError"
  shows "map_err f xs = Inl e \<Longrightarrow> e = DecodeError"
  by (induction xs arbitrary: e) (auto simp: err_bind_def split: sum.splits dest: assms)

lemma dec_field_errors:
  "dec_uint64 x = Inl e \<Longrightarrow> e = DecodeError"
  "dec_bigint x = Inl e \<Longrightarrow> e = DecodeError"
  "dec_bytes x = Inl e \<Longrightarrow> e = DecodeError"
  "dec_hash_ptr x = Inl e \<Longrightarrow> e = DecodeError"
  by (auto simp: dec_uint64_def dec_bigint_def dec_bytes_def dec_hash_ptr_def
      split: rlp.splits if_splits)

lemma rlp_body_error:
  assumes "\<And>x e. Clause_DecodeRLP X x = Inl e \<Longrightarrow> e = DecodeError"
  shows "rlp_body X x = Inl e \<Longrightarrow> e = DecodeError"
proof -
  have m: "e = DecodeError" if "map_err (Clause_DecodeRLP X) xs = Inl e" for xs e
    using that by (rule map_err_error [rotated]) (rule assms)
  show "rlp_body X x = Inl e \<Longrightarrow> e = DecodeError"
    by (auto simp: rlp_body_def dec_clauses_def err_bind_def
        split: rlp.splits if_splits sum.splits dest: dec_field_errors m)
qed

lemma dec_tx_error:
  assumes "\<And>x e. Clause_DecodeRLP X x = Inl e \<Longrightarrow> e = DecodeError"
  shows "dec_tx X x = Inl e \<Longrightarrow> e = DecodeError"
  using rlp_body_error [of X x e, OF assms]
  by (auto simp: dec_tx_def Transaction_DecodeRLP_def split: sum.splits)

lemma rlp_payload_error:
  assumes "\<And>x e. Clause_DecodeRLP X x = Inl e \<Longrightarrow> e = DecodeError"
    and "\<And>x e. Header_DecodeRLP HX x = Inl e \<Longrightarrow> e = DecodeError"
  shows "rlp_payload X HX x = Inl e \<Longrightarrow> e = DecodeError"
proof -
  have m: "e = DecodeError" if "map_err (dec_tx X) xs = Inl e" for xs e
    using that by (rule map_err_error [rotated]) (rule dec_tx_error [OF assms(1)])
  show "rlp_payload X HX x = Inl e \<Longrightarrow> e = DecodeError"
    by (auto simp: rlp_payload_def dec_txs_def err_bind_def
        split: rlp.splits if_splits sum.splits dest: assms(2) m)
qed

text \<open>Claim C6. On every input byte sequence, \<open>DecodeRLP\<close> of a transaction either returns an
  error and leaves the receiver as it was, or succeeds with a value that has an empty cache
  and is the same whatever the receiver held before; the same for a block. Where the
  decoders of \<open>Clause\<close> and \<open>Header\<close> report decoding errors only, the error is a
  \<open>DecodeError\<close>.\<close>

theorem decode_all_or_nothing:
  "((\<exists>err. Transaction_DecodeRLP X (stream_of input) t = (Some err, t)) \<or>
    (\<exists>t'. Transaction_DecodeRLP X (stream_of input) t = (None, t') \<and> cache_hash t' = None
        \<and> (\<forall>u. Transaction_DecodeRLP X (stream_of input) u = (None, t')))) \<and>
   ((\<exists>err. Block_DecodeRLP X HX (stream_of input) b = (Some err, b)) \<or>
    (\<exists>b'. Block_DecodeRLP X HX (stream_of input) b = (None, b') \<and> cache_size b' = None
        \<and> (\<forall>u. Block_DecodeRLP X HX (stream_of input) u = (None, b')))) \<and>
   ((\<forall>x e. Clause_DecodeRLP X x = Inl e \<longrightarrow> e = DecodeError) \<longrightarrow>
      (\<forall>err t'. Transaction_DecodeRLP X (stream_of input) t = (Some err, t') \<longrightarrow>
         err = DecodeError) \<and>
      ((\<forall>x e. Header_DecodeRLP HX x = Inl e \<longrightarrow> e = DecodeError) \<longrightarrow>
         (\<forall>err b'. Block_DecodeRLP X HX (stream_of input) b = (Some err, b') \<longrightarrow>
            err = DecodeError)))"
proof -
  have tx: "(\<exists>err. Transaction_DecodeRLP X (stream_of input) t = (Some err, t)) \<or>
    (\<exists>t'. Transaction_DecodeRLP X (stream_of input) t = (None, t') \<and> cache_hash t' = None
        \<and> (\<forall>u. Transaction_DecodeRLP X (stream_of input) u = (None, t')))"
    by (cases "err_bind (stream_of input) (rlp_body X)")
      (simp_all add: Transaction_DecodeRLP_def)
  have blk: "(\<exists>err. Block_DecodeRLP X HX (stream_of input) b = (Some err, b)) \<or>
    (\<exists>b'. Block_DecodeRLP X HX (stream_of input) b = (None, b') \<and> cache_size b' = None
        \<and> (\<forall>u. Block_DecodeRLP X HX (stream_of input) u = (None, b')))"
    by (cases "err_bind (stream_of input) (rlp_payload X HX)")
      (simp_all add: Block_DecodeRLP_def)
  have txe: "err = DecodeError"
    if c: "\<forall>x e. Clause_DecodeRLP X x = Inl e \<longrightarrow> e = DecodeError"
      and d: "Transaction_DecodeRLP X (stream_of input) t = (Some err, t')" for err t'
  proof -
    from d have "err_bind (stream_of input) (rlp_body X) = Inl err"
      by (auto simp: Transaction_DecodeRLP_def split: sum.splits)
    then show ?thesis
      using rlp_body_error [of X _ err] c
      by (auto simp: err_bind_def split: sum.splits dest: stream_of_error)
  qed
  have blke: "err = DecodeError"
    if c: "\<forall>x e. Clause_DecodeRLP X x = Inl e \<longrightarrow> e = DecodeError"
      and h: "\<forall>x e. Header_DecodeRLP HX x = Inl e \<longrightarrow> e = DecodeError"
      and d: "Block_DecodeRLP X HX (stream_of input) b = (Some err, b')" for err b'
  proof -
    from d have "err_bind (stream_of input) (rlp_payload X HX) = Inl err"
      by (auto simp: Block_DecodeRLP_def split: sum.splits)
    then show ?thesis
      using rlp_payload_error [of X HX _ err] c h
      by (auto simp: err_bind_def split: sum.splits dest: stream_of_error)
  qed
  from tx blk txe blke show ?thesis by blast
qed

lemma example_decoders_error:
  "Clause_DecodeRLP example_deps x = Inl e \<Longrightarrow> e = DecodeError"
  "Header_DecodeRLP example_header_deps x = Inl e \<Longrightarrow> e = DecodeError"
  by (auto simp: example_deps_def example_Clause_DecodeRLP_def example_header_deps_def
      err_bind_def split: rlp.splits if_splits sum.splits dest: dec_field_errors)

lemma stream_of_malformed: "stream_of [0x81, 0x05] = Inl DecodeError"
  by (simp add: stream_of_def rlp_decode_def split_item_def take_payload_def)

theorem decode_all_or_nothing_witness:
  "Transaction_DecodeRLP example_deps (stream_of [0x81, 0x05]) signed_tx
     = (Some DecodeError, signed_tx) \<and>
   Block_DecodeRLP example_deps example_header_deps (stream_of [0x81, 0x05]) example_block
     = (Some DecodeError, example_block)"
proof -
  note r = decode_all_or_nothing [of example_deps "[0x81, 0x05]" signed_tx example_header_deps
      example_block]
  have c: "\<forall>x e. Clause_DecodeRLP example_deps x = Inl e \<longrightarrow> e = DecodeError"
    and h: "\<forall>x e. Header_DecodeRLP example_header_deps x = Inl e \<longrightarrow> e = DecodeError"
    using example_decoders_error by blast+
  have nt: "fst (Transaction_DecodeRLP example_deps (stream_of [0x81, 0x05]) signed_tx) \<noteq> None"
    by (simp add: Transaction_DecodeRLP_def stream_of_malformed)
  have nb: "fst (Block_DecodeRLP example_deps example_header_deps (stream_of [0x81, 0x05])
      example_block) \<noteq> None"
    by (simp add: Block_DecodeRLP_def stream_of_malformed)
  from r nt obtain err where e1: "Transaction_DecodeRLP example_deps (stream_of [0x81, 0x05])
      signed_tx = (Some err, signed_tx)"
    by auto
  from r nb obtain err' where e2: "Block_DecodeRLP example_deps example_header_deps
      (stream_of [0x81, 0x05]) example_block = (Some err', example_block)"
    by auto
  from r c e1 have "err = DecodeError" by blast
  moreover from r c h e2 have "err' = DecodeError" by blast
  ultimately show ?thesis using e1 e2 by simp
qed

text \<open>A writer that counts: after any sequence of pieces the count has grown by the length
  of their concatenation.\<close>

lemma counterWriter_pieces:
  "foldl (\<lambda>count p. snd (counterWriter_Write count p)) count ps = count + length (concat ps)"
  by (induction ps arbitrary: count) (simp_all add: counterWriter_Write_def Let_def)




section \<open>Copies and the store\<close>

lemma agree_below_refl: "agree_below n h h"
  by (simp add: agree_below_def)

lemma agree_below_trans:
  "agree_below n h h1 \<Longrightarrow> agree_below n h1 h2 \<Longrightarrow> agree_below n h h2"
  by (simp add: agree_below_def)

lemma agree_below_alloc: "n \<le> next_addr h \<Longrightarrow> agree_below n h (snd (alloc h ob))"
  by (simp add: agree_below_def alloc_def)

lemma agree_below_write: "n \<le> a \<Longrightarrow> agree_below n h (store_write h a ob)"
  by (simp add: agree_below_def store_write_def)

lemma agree_below_append_nil:
  "n \<le> next_addr h \<Longrightarrow> agree_below n h (snd (append_nil mk h src))"
  by (simp add: append_nil_def agree_below_refl agree_below_alloc split_beta Let_def)

lemma bytes_at_agree:
  "agree_below n h h' \<Longrightarrow> (case s of None \<Rightarrow> True | Some a \<Rightarrow> a < n) \<Longrightarrow> bytes_at h' s = bytes_at h s"
  by (cases s) (simp_all add: bytes_at_def agree_below_def)

lemma bigint_at_agree:
  "agree_below n h h' \<Longrightarrow> (case s of None \<Rightarrow> True | Some a \<Rightarrow> a < n) \<Longrightarrow> bigint_at h' s = bigint_at h s"
  by (cases s) (simp_all add: bigint_at_def agree_below_def)

lemma txs_at_agree:
  "agree_below n h h' \<Longrightarrow> (case s of None \<Rightarrow> True | Some a \<Rightarrow> a < n) \<Longrightarrow> txs_at h' s = txs_at h s"
  by (cases s) (simp_all add: txs_at_def agree_below_def)

lemma tx_wf_cases:
  assumes "tx_wf h t"
  obtains tx where "t < next_addr h" "objects h t = Some (TxObject tx)"
    "allocated h (GasPrice (body tx))" "allocated h (Signature (body tx))"
  using assms
  by (auto simp: tx_wf_def split: option.splits object.splits)

lemma load_tx_agree:
  assumes "tx_wf h t" "agree_below (next_addr h) h h'"
  shows "load_tx h' t = load_tx h t"
proof -
  from assms(1) obtain tx where tx: "t < next_addr h" "objects h t = Some (TxObject tx)"
    "allocated h (GasPrice (body tx))" "allocated h (Signature (body tx))"
    by (rule tx_wf_cases)
  have o: "objects h' t = Some (TxObject tx)"
    using assms(2) tx(1,2) by (simp add: agree_below_def)
  have g: "bigint_at h' (GasPrice (body tx)) = bigint_at h (GasPrice (body tx))"
    using assms(2) tx(3) by (intro bigint_at_agree) (simp_all add: allocated_def)
  have s: "bytes_at h' (Signature (body tx)) = bytes_at h (Signature (body tx))"
    using assms(2) tx(4) by (intro bytes_at_agree) (simp_all add: allocated_def)
  show ?thesis
    by (simp add: load_tx_def o tx(2) g s cong: option.case_cong)
qed

lemma load_txs_agree:
  assumes "list_all (tx_wf h) ps" "agree_below (next_addr h) h h'"
  shows "load_txs h' ps = load_txs h ps"
  using assms
proof (induction ps)
  case Nil
  show ?case by simp
next
  case (Cons p ps)
  then have "load_tx h' p = load_tx h p" "load_txs h' ps = load_txs h ps"
    by (simp_all add: load_tx_agree [of h p h'])
  then show ?case by (simp cong: option.case_cong)
qed

lemma signature_content_agree:
  assumes "tx_wf h t" "agree_below (next_addr h) h h'"
  shows "map_option (\<lambda>(r, k). bytes_at k r) (Transaction_Signature h' t)
       = map_option (\<lambda>(r, k). bytes_at k r) (Transaction_Signature h t)"
proof -
  from assms(1) obtain tx where tx: "t < next_addr h" "objects h t = Some (TxObject tx)"
    "allocated h (GasPrice (body tx))" "allocated h (Signature (body tx))"
    by (rule tx_wf_cases)
  have o: "objects h' t = Some (TxObject tx)"
    using assms(2) tx(1,2) by (simp add: agree_below_def)
  have s: "bytes_at h' (Signature (body tx)) = bytes_at h (Signature (body tx))"
    using assms(2) tx(4) by (intro bytes_at_agree) (simp_all add: allocated_def)
  have c: "bytes_at (snd (append_nil ByteArray k bs)) (fst (append_nil ByteArray k bs)) = Some bs"
    for k :: "'a store" and bs
    by (simp add: append_nil_def alloc_def bytes_at_def)
  show ?thesis
    by (simp add: Transaction_Signature_def o tx(2) s c split_beta split: option.split)
qed

lemma gasprice_content_agree:
  assumes "tx_wf h t" "agree_below (next_addr h) h h'"
  shows "map_option (\<lambda>(g, k). bigint_at k (Some g)) (Transaction_GasPrice h' t)
       = map_option (\<lambda>(g, k). bigint_at k (Some g)) (Transaction_GasPrice h t)"
proof -
  from assms(1) obtain tx where tx: "t < next_addr h" "objects h t = Some (TxObject tx)"
    "allocated h (GasPrice (body tx))" "allocated h (Signature (body tx))"
    by (rule tx_wf_cases)
  have o: "objects h' t = Some (TxObject tx)"
    using assms(2) tx(1,2) by (simp add: agree_below_def)
  have g: "bigint_at h' (GasPrice (body tx)) = bigint_at h (GasPrice (body tx))"
    using assms(2) tx(3) by (intro bigint_at_agree) (simp_all add: allocated_def)
  have c: "bigint_at (snd (alloc k (BigInt v))) (Some (fst (alloc k (BigInt v)))) = Some v"
    for k :: "'a store" and v
    by (simp add: alloc_def bigint_at_def)
  show ?thesis
    by (simp add: Transaction_GasPrice_def o tx(2) g c split_beta split: option.split)
qed

lemma tx_results_agree:
  assumes "tx_wf h t" "agree_below (next_addr h) h h'"
  shows "tx_results h' t = tx_results h t"
  unfolding tx_results_def
  using load_tx_agree [OF assms] signature_content_agree [OF assms]
    gasprice_content_agree [OF assms] by simp

lemma block_wf_cases:
  assumes "block_wf h b"
  obtains blk ps where "b < next_addr h" "objects h b = Some (BlockObject blk)"
    "allocated h (txs blk)" "txs_at h (txs blk) = Some ps" "list_all (tx_wf h) ps"
  using assms
  by (auto simp: block_wf_def split: option.splits object.splits)

lemma next_addr_append_nil: "next_addr h \<le> next_addr (snd (append_nil mk h src))"
  by (simp add: append_nil_def alloc_def)

lemma fst_append_nil: "fst (append_nil mk h src) = Some a \<Longrightarrow> a = next_addr h"
  by (simp add: append_nil_def alloc_def split: if_splits)

lemma next_addr_alloc: "next_addr (snd (alloc h ob)) = Suc (next_addr h)" "fst (alloc h ob) = next_addr h"
  by (simp_all add: alloc_def)

lemma next_addr_store_write: "next_addr (store_write h a ob) = next_addr h"
  by (simp add: store_write_def)

lemma block_results_agree:
  assumes "block_wf h b" "agree_below (next_addr h) h h'" "next_addr h \<le> next_addr h'"
  shows "block_results h' b = block_results h b"
proof -
  from assms(1) obtain blk ps where blk: "b < next_addr h" "objects h b = Some (BlockObject blk)"
    "allocated h (txs blk)" "txs_at h (txs blk) = Some ps" "list_all (tx_wf h) ps"
    by (rule block_wf_cases)
  have o: "objects h' b = Some (BlockObject blk)"
    using assms(2) blk(1,2) by (simp add: agree_below_def)
  have a: "txs_at h' (txs blk) = Some ps"
    using txs_at_agree [OF assms(2), of "txs blk"] blk(3,4) by (simp add: allocated_def)
  have l: "load_txs h' ps = load_txs h ps"
    using blk(5) assms(2) by (rule load_txs_agree)
  have lb: "load_block h' b = load_block h b"
    by (simp add: load_block_def o a l blk(2,4))
  have c: "txs_at (snd (append_nil TxArray k ps)) (fst (append_nil TxArray k ps)) = Some ps"
    for k :: "'a store"
    by (simp add: append_nil_def alloc_def txs_at_def)
  have "agree_below (next_addr h) h (snd (append_nil TxArray h' ps))"
    using assms(2) agree_below_append_nil [OF assms(3)] by (rule agree_below_trans)
  then have l1: "load_txs (snd (append_nil TxArray h' ps)) ps = load_txs h ps"
    using blk(5) by (intro load_txs_agree)
  have "agree_below (next_addr h) h (snd (append_nil TxArray h ps))"
    by (rule agree_below_append_nil) simp
  then have l2: "load_txs (snd (append_nil TxArray h ps)) ps = load_txs h ps"
    using blk(5) by (intro load_txs_agree)
  show ?thesis
    by (simp add: block_results_def lb Block_Transactions_def o a blk(2,4) c l1 l2 split_beta)
qed

lemma signature_returns:
  assumes "load_tx h t = Some tv"
  shows "\<exists>r h1. Transaction_Signature h t = Some (r, h1) \<and> bytes_at h1 r = Some (Signature (body tv))"
proof -
  from assms obtain tx where tx: "objects h t = Some (TxObject tx)"
    and s: "bytes_at h (Signature (body tx)) = Some (Signature (body tv))"
    by (auto simp: load_tx_def split: option.splits object.splits)
  have c: "bytes_at (snd (append_nil ByteArray h bs)) (fst (append_nil ByteArray h bs)) = Some bs"
    for bs
    by (simp add: append_nil_def alloc_def bytes_at_def)
  show ?thesis
    using c [of "Signature (body tv)"]
    by (cases "append_nil ByteArray h (Signature (body tv))")
      (simp add: Transaction_Signature_def tx s)
qed

lemma gasprice_returns:
  assumes "load_tx h t = Some tv"
  shows "\<exists>g h1. Transaction_GasPrice h t = Some (g, h1) \<and> bigint_at h1 (Some g) = Some (GasPrice (body tv))"
proof -
  from assms obtain tx where tx: "objects h t = Some (TxObject tx)"
    and g: "bigint_at h (GasPrice (body tx)) = Some (GasPrice (body tv))"
    by (auto simp: load_tx_def split: option.splits object.splits)
  have c: "bigint_at (snd (alloc h (BigInt v))) (Some (fst (alloc h (BigInt v)))) = Some v" for v
    by (simp add: alloc_def bigint_at_def)
  show ?thesis
    using c [of "GasPrice (body tv)"]
    by (cases "alloc h (BigInt (GasPrice (body tv)))") (simp add: Transaction_GasPrice_def tx g)
qed

lemma transactions_returns:
  assumes "load_block h b = Some bv" "block_wf h b"
  shows "\<exists>r h1 ps. Block_Transactions h b = Some (r, h1) \<and> txs_at h1 r = Some ps
           \<and> load_txs h1 ps = Some (txs bv)"
proof -
  from assms(2) obtain blk ps where blk: "b < next_addr h" "objects h b = Some (BlockObject blk)"
    "allocated h (txs blk)" "txs_at h (txs blk) = Some ps" "list_all (tx_wf h) ps"
    by (rule block_wf_cases)
  from assms(1) have l: "load_txs h ps = Some (txs bv)"
    by (auto simp: load_block_def blk(2,4) split: option.splits)
  have c: "txs_at (snd (append_nil TxArray h ps)) (fst (append_nil TxArray h ps)) = Some ps"
    by (simp add: append_nil_def alloc_def txs_at_def)
  have "agree_below (next_addr h) h (snd (append_nil TxArray h ps))"
    by (rule agree_below_append_nil) simp
  then have "load_txs (snd (append_nil TxArray h ps)) ps = load_txs h ps"
    using blk(5) by (intro load_txs_agree)
  then show ?thesis
    using c l
    by (cases "append_nil TxArray h ps") (simp add: Block_Transactions_def blk(2,4))
qed

text \<open>Claim C8. For a well-formed transaction in the store, after \<open>Signature\<close> or \<open>GasPrice\<close>
  returned, overwriting the returned object with anything leaves the results of all calls on
  the transaction as they were; for a well-formed block the same holds of the sequence that
  \<open>Transactions\<close> returned. The calls do return: with the bytes of the signature, the value of
  the gas price, and a new sequence. That sequence is a shallow copy: its elements are the
  pointers that the block itself holds.\<close>

theorem accessors_return_independent_copies:
  "(tx_wf h t \<longrightarrow>
      (\<forall>r h1 a ob. Transaction_Signature h t = Some (r, h1) \<and> r = Some a \<longrightarrow>
         tx_results (store_write h1 a ob) t = tx_results h t) \<and>
      (\<forall>g h1 ob. Transaction_GasPrice h t = Some (g, h1) \<longrightarrow>
         tx_results (store_write h1 g ob) t = tx_results h t) \<and>
      (\<forall>tv. load_tx h t = Some tv \<longrightarrow>
         (\<exists>r h1. Transaction_Signature h t = Some (r, h1)
            \<and> bytes_at h1 r = Some (Signature (body tv))) \<and>
         (\<exists>g h1. Transaction_GasPrice h t = Some (g, h1)
            \<and> bigint_at h1 (Some g) = Some (GasPrice (body tv))))) \<and>
   (block_wf h b \<longrightarrow>
      (\<forall>r h1 a ob. Block_Transactions h b = Some (r, h1) \<and> r = Some a \<longrightarrow>
         block_results (store_write h1 a ob) b = block_results h b) \<and>
      (\<forall>bv. load_block h b = Some bv \<longrightarrow>
         (\<exists>r h1 ps. Block_Transactions h b = Some (r, h1) \<and> txs_at h1 r = Some ps
            \<and> load_txs h1 ps = Some (txs bv))) \<and>
      (\<forall>blk. objects h b = Some (BlockObject blk) \<longrightarrow>
         (\<exists>r h1. Block_Transactions h b = Some (r, h1) \<and> txs_at h1 r = txs_at h (txs blk))))"
proof (intro conjI impI allI)
  fix r h1 a ob
  assume wf: "tx_wf h t" and "Transaction_Signature h t = Some (r, h1) \<and> r = Some a"
  then obtain bs where r: "append_nil ByteArray h bs = (Some a, h1)"
    by (auto simp: Transaction_Signature_def split: option.splits object.splits)
  have a: "a = next_addr h"
    using fst_append_nil [of ByteArray h bs a] r by simp
  have "agree_below (next_addr h) h h1"
    using agree_below_append_nil [of "next_addr h" h ByteArray bs] r by simp
  moreover have "agree_below (next_addr h) h1 (store_write h1 a ob)"
    using a by (intro agree_below_write) simp
  ultimately have "agree_below (next_addr h) h (store_write h1 a ob)"
    by (rule agree_below_trans)
  with wf show "tx_results (store_write h1 a ob) t = tx_results h t"
    by (rule tx_results_agree)
next
  fix g h1 ob
  assume wf: "tx_wf h t" and "Transaction_GasPrice h t = Some (g, h1)"
  then obtain v where r: "alloc h (BigInt v) = (g, h1)"
    by (auto simp: Transaction_GasPrice_def split: option.splits object.splits)
  have g: "g = next_addr h"
    using next_addr_alloc(2) [of h "BigInt v"] r by simp
  have "agree_below (next_addr h) h h1"
    using agree_below_alloc [of "next_addr h" h "BigInt v"] r by simp
  moreover have "agree_below (next_addr h) h1 (store_write h1 g ob)"
    using g by (intro agree_below_write) simp
  ultimately have "agree_below (next_addr h) h (store_write h1 g ob)"
    by (rule agree_below_trans)
  with wf show "tx_results (store_write h1 g ob) t = tx_results h t"
    by (rule tx_results_agree)
next
  fix tv assume "load_tx h t = Some tv"
  then show "\<exists>r h1. Transaction_Signature h t = Some (r, h1)
            \<and> bytes_at h1 r = Some (Signature (body tv))"
    by (rule signature_returns)
next
  fix tv assume "load_tx h t = Some tv"
  then show "\<exists>g h1. Transaction_GasPrice h t = Some (g, h1)
            \<and> bigint_at h1 (Some g) = Some (GasPrice (body tv))"
    by (rule gasprice_returns)
next
  fix r h1 a ob
  assume wf: "block_wf h b" and "Block_Transactions h b = Some (r, h1) \<and> r = Some a"
  then obtain ps where r: "append_nil TxArray h ps = (Some a, h1)"
    by (auto simp: Block_Transactions_def split: option.splits object.splits)
  have a: "a = next_addr h"
    using fst_append_nil [of TxArray h ps a] r by simp
  have n: "next_addr h \<le> next_addr h1"
    using next_addr_append_nil [of h TxArray ps] r by simp
  have "agree_below (next_addr h) h h1"
    using agree_below_append_nil [of "next_addr h" h TxArray ps] r by simp
  moreover have "agree_below (next_addr h) h1 (store_write h1 a ob)"
    using a by (intro agree_below_write) simp
  ultimately have "agree_below (next_addr h) h (store_write h1 a ob)"
    by (rule agree_below_trans)
  with wf show "block_results (store_write h1 a ob) b = block_results h b"
    using n by (intro block_results_agree) (simp_all add: next_addr_store_write)
next
  fix bv assume "block_wf h b" "load_block h b = Some bv"
  then show "\<exists>r h1 ps. Block_Transactions h b = Some (r, h1) \<and> txs_at h1 r = Some ps
            \<and> load_txs h1 ps = Some (txs bv)"
    using transactions_returns by blast
next
  fix blk assume "block_wf h b" and o: "objects h b = Some (BlockObject blk)"
  then obtain ps where ps: "txs_at h (txs blk) = Some ps"
    by (auto simp: block_wf_def split: option.splits)
  have "txs_at (snd (append_nil TxArray h ps)) (fst (append_nil TxArray h ps)) = Some ps"
    by (simp add: append_nil_def alloc_def txs_at_def)
  then show "\<exists>r h1. Block_Transactions h b = Some (r, h1) \<and> txs_at h1 r = txs_at h (txs blk)"
    by (cases "append_nil TxArray h ps") (simp add: Block_Transactions_def o ps)
qed

lemma example_store_wf: "tx_wf example_store 2" "block_wf example_store 4"
  by (simp_all add: tx_wf_def block_wf_def example_store_def allocated_def txs_at_def)

lemma example_store_load:
  "load_tx example_store 2 = Some signed_tx"
  "load_block example_store 4
     = Some \<lparr>header = \<lparr>Number = 5, HeaderSignature = []\<rparr>, txs = [signed_tx], cache_size = None\<rparr>"
  by (simp_all add: load_tx_def load_block_def example_store_def bigint_at_def bytes_at_def
      txs_at_def signed_tx_def)

lemma example_store_calls:
  "Transaction_Signature example_store 2
     = Some (Some 6, snd (alloc example_store (ByteArray [1, 2, 3])))"
  "Transaction_GasPrice example_store 2
     = Some (6, snd (alloc example_store (BigInt 1000)))"
  "Block_Transactions example_store 4
     = Some (Some 6, snd (alloc example_store (TxArray [2])))"
  by (simp_all add: Transaction_Signature_def Transaction_GasPrice_def Block_Transactions_def
      example_store_def bigint_at_def bytes_at_def txs_at_def append_nil_def alloc_def)

lemma example_store_block:
  "objects example_store 4
     = Some (BlockObject \<lparr>header = \<lparr>Number = 5, HeaderSignature = []\<rparr>, txs = Some 3,
            cache_size = None\<rparr>)"
  by (simp add: example_store_def)

theorem accessors_return_independent_copies_witness:
  "tx_results (store_write (snd (alloc example_store (ByteArray [1, 2, 3]))) 6 (ByteArray [7, 7, 7])) 2
     = (Some signed_tx, Some (Some [1, 2, 3]), Some (Some 1000)) \<and>
   tx_results (store_write (snd (alloc example_store (BigInt 1000))) 6 (BigInt 5)) 2
     = (Some signed_tx, Some (Some [1, 2, 3]), Some (Some 1000)) \<and>
   block_results (store_write (snd (alloc example_store (TxArray [2]))) 6 (TxArray [])) 4
     = (Some \<lparr>header = \<lparr>Number = 5, HeaderSignature = []\<rparr>, txs = [signed_tx],
              cache_size = None\<rparr>,
        Some (Some ([2], Some [signed_tx]))) \<and>
   txs_at example_store (Some 3) = Some [2] \<and>
   (\<exists>h1. Block_Transactions example_store 4 = Some (Some 6, h1) \<and> txs_at h1 (Some 6) = Some [2])"
proof -
  note r = accessors_return_independent_copies [of example_store 2 4]
  have t: "tx_results example_store 2 = (Some signed_tx, Some (Some [1, 2, 3]), Some (Some 1000))"
    by (simp add: tx_results_def example_store_load example_store_calls)
      (simp add: alloc_def bytes_at_def bigint_at_def example_store_def)
  have b: "block_results example_store 4
     = (Some \<lparr>header = \<lparr>Number = 5, HeaderSignature = []\<rparr>, txs = [signed_tx],
              cache_size = None\<rparr>,
        Some (Some ([2], Some [signed_tx])))"
    by (simp add: block_results_def example_store_load example_store_calls)
      (simp add: alloc_def txs_at_def load_tx_def example_store_def bigint_at_def bytes_at_def
        signed_tx_def)
  have p: "txs_at example_store (Some 3) = Some [2]"
    by (simp add: txs_at_def example_store_def)
  from r example_store_wf(2) example_store_block p
  have "\<exists>r h1. Block_Transactions example_store 4 = Some (r, h1) \<and> txs_at h1 r = Some [2]"
    by simp
  then have c: "\<exists>h1. Block_Transactions example_store 4 = Some (Some 6, h1)
      \<and> txs_at h1 (Some 6) = Some [2]"
    by (simp add: example_store_calls)
  from r example_store_wf example_store_calls t b have
    "tx_results (store_write (snd (alloc example_store (ByteArray [1, 2, 3]))) 6
        (ByteArray [7, 7, 7])) 2
       = (Some signed_tx, Some (Some [1, 2, 3]), Some (Some 1000))"
    "tx_results (store_write (snd (alloc example_store (BigInt 1000))) 6 (BigInt 5)) 2
       = (Some signed_tx, Some (Some [1, 2, 3]), Some (Some 1000))"
    "block_results (store_write (snd (alloc example_store (TxArray [2]))) 6 (TxArray [])) 4
       = (Some \<lparr>header = \<lparr>Number = 5, HeaderSignature = []\<rparr>, txs = [signed_tx],
                cache_size = None\<rparr>,
          Some (Some ([2], Some [signed_tx])))"
    by simp_all
  with p c show ?thesis by simp
qed

lemma stream_of_other_tx:
  "stream_of other_tx_bytes
     = Inr (Lst [Lst [], Str [1], Str [1, 134, 160], Str [7], Str [], Str [], Str []])"
proof -
  have e: "rlp_encode (Lst [Lst [], Str [1], Str [1, 134, 160], Str [7], Str [], Str [], Str []])
      = other_tx_bytes"
    by (simp add: puthead_def other_tx_bytes_def)
  show ?thesis
    using stream_of_encode [of "Lst [Lst [], Str [1], Str [1, 134, 160], Str [7], Str [], Str [],
        Str []]"]
    unfolding e by (simp add: other_tx_bytes_def)
qed

lemma decode_other_tx:
  "err_bind (stream_of other_tx_bytes) (rlp_body example_deps) = Inr (body (example_tx []))"
  using body_roundtrip [OF example_valid(2)]
  by (simp add: stream_of_other_tx example_tx_rlp)

lemma store_after_Transactions_eq:
  "store_after_Transactions = snd (alloc example_store (TxArray [2]))"
  by (simp add: store_after_Transactions_def example_store_calls)

lemma load_block_after_overwrite:
  "load_block store_after_overwrite 4
     = Some \<lparr>header = \<lparr>Number = 5, HeaderSignature = []\<rparr>, txs = [example_tx []],
             cache_size = None\<rparr>"
  by (simp add: store_after_overwrite_def Transaction_DecodeRLP_store_def decode_other_tx
      store_after_Transactions_eq alloc_def append_nil_def store_write_def example_store_def
      split_beta load_block_def txs_at_def load_tx_def bigint_at_def bytes_at_def example_tx_def)

lemma overwrite_eq:
  "Transaction_DecodeRLP_store example_deps store_after_Transactions (stream_of other_tx_bytes) 2
     = Some (None, store_after_overwrite)"
proof -
  have "\<exists>h. Transaction_DecodeRLP_store example_deps store_after_Transactions
      (stream_of other_tx_bytes) 2 = Some (None, h)"
    by (simp add: Transaction_DecodeRLP_store_def decode_other_tx store_after_Transactions_eq
      alloc_def example_store_def split_beta)
  then show ?thesis
    by (auto simp: store_after_overwrite_def)
qed

lemma load_block_after_Transactions:
  "load_block store_after_Transactions 4
     = Some \<lparr>header = \<lparr>Number = 5, HeaderSignature = []\<rparr>, txs = [signed_tx],
             cache_size = None\<rparr>"
  by (simp add: store_after_Transactions_eq alloc_def example_store_def
      load_block_def txs_at_def load_tx_def bigint_at_def bytes_at_def signed_tx_def)

text \<open>Writing through an element of the returned sequence is seen by the block. In
  \<open>example_store\<close>, \<open>Transactions\<close> on the block at 4 returns a new sequence at 6 holding the
  pointer 2; \<open>DecodeRLP\<close> on the transaction at 2 succeeds, and the block then has another
  transaction than before.\<close>

theorem transactions_elements_alias_counterexample:
  "Block_Transactions example_store 4 = Some (Some 6, store_after_Transactions)
   \<and> txs_at store_after_Transactions (Some 6) = Some [2]
   \<and> fst (block_results store_after_Transactions 4)
       = Some \<lparr>header = \<lparr>Number = 5, HeaderSignature = []\<rparr>, txs = [signed_tx],
               cache_size = None\<rparr>
   \<and> Transaction_DecodeRLP_store example_deps store_after_Transactions
         (stream_of other_tx_bytes) ([2] ! 0) = Some (None, store_after_overwrite)
   \<and> fst (block_results store_after_overwrite 4)
       = Some \<lparr>header = \<lparr>Number = 5, HeaderSignature = []\<rparr>, txs = [example_tx []],
               cache_size = None\<rparr>
   \<and> block_results store_after_overwrite 4 \<noteq> block_results store_after_Transactions 4"
proof -
  have a: "fst (block_results store_after_Transactions 4)
       = Some \<lparr>header = \<lparr>Number = 5, HeaderSignature = []\<rparr>, txs = [signed_tx],
               cache_size = None\<rparr>"
    by (simp add: block_results_def load_block_after_Transactions)
  have b: "fst (block_results store_after_overwrite 4)
       = Some \<lparr>header = \<lparr>Number = 5, HeaderSignature = []\<rparr>, txs = [example_tx []],
               cache_size = None\<rparr>"
    by (simp add: block_results_def load_block_after_overwrite)
  have "signed_tx \<noteq> example_tx []"
    by (simp add: signed_tx_def example_tx_def)
  with a b have c: "block_results store_after_overwrite 4
      \<noteq> block_results store_after_Transactions 4"
    by (metis Block.select_convs(2) list.inject option.inject)
  have d: "txs_at store_after_Transactions (Some 6) = Some [2]"
    by (simp add: store_after_Transactions_eq alloc_def txs_at_def example_store_def)
  show ?thesis
    using a b c d overwrite_eq by (simp add: example_store_calls store_after_Transactions_eq)
qed

lemma with_signature_result:
  assumes tx: "objects h t = Some (TxObject tx)" and s: "bytes_at h sig = Some s"
  obtains sr h' where
    "Transaction_WithSignature h t sig = Some (next_addr h, h')"
    "objects h' (next_addr h)
       = Some (TxObject \<lparr>body = (body tx)\<lparr>Signature := sr\<rparr>, cache_hash = None\<rparr>)"
    "bytes_at h' sr = Some s"
    "agree_below (next_addr h) h h'"
proof -
  define h1 where "h1 = snd (alloc h (TxObject \<lparr>body = body tx, cache_hash = None\<rparr>))"
  define sr where "sr = fst (append_nil ByteArray h1 s)"
  define h2 where "h2 = snd (append_nil ByteArray h1 s)"
  define h' where "h' = store_write h2 (next_addr h)
      (TxObject \<lparr>body = (body tx)\<lparr>Signature := sr\<rparr>, cache_hash = None\<rparr>)"
  have n1: "next_addr h1 = Suc (next_addr h)"
    by (simp add: h1_def alloc_def)
  have r: "Transaction_WithSignature h t sig = Some (next_addr h, h')"
    by (simp add: Transaction_WithSignature_def tx s alloc_def split_beta Let_def
        h'_def h2_def sr_def h1_def)
  have o: "objects h' (next_addr h)
       = Some (TxObject \<lparr>body = (body tx)\<lparr>Signature := sr\<rparr>, cache_hash = None\<rparr>)"
    by (simp add: h'_def store_write_def)
  have b: "bytes_at h' sr = Some s"
  proof (cases "s = []")
    case True
    then show ?thesis by (simp add: sr_def append_nil_def bytes_at_def)
  next
    case False
    then have "sr = Some (Suc (next_addr h))" "objects h2 (Suc (next_addr h)) = Some (ByteArray s)"
      by (simp_all add: sr_def h2_def append_nil_def alloc_def n1)
    then show ?thesis by (simp add: bytes_at_def h'_def store_write_def)
  qed
  have "agree_below (next_addr h) h h1"
    unfolding h1_def by (rule agree_below_alloc) simp
  moreover have "agree_below (next_addr h) h1 h2"
    unfolding h2_def by (rule agree_below_append_nil) (simp add: n1)
  moreover have "agree_below (next_addr h) h2 h'"
    unfolding h'_def by (rule agree_below_write) simp
  ultimately have a: "agree_below (next_addr h) h h'"
    by (blast intro: agree_below_trans)
  from r o b a show ?thesis by (rule that)
qed

text \<open>Claim C3. For a well-formed transaction \<open>t\<close> and a byte slice \<open>sig\<close> in the store,
  \<open>WithSignature\<close> returns a new transaction; no object that existed before is changed, so
  the results of all calls on \<open>t\<close> are as before; the new transaction carries the bytes of
  \<open>sig\<close>, agrees with \<open>t\<close> in the six unsigned fields and has the same \<open>SigningHash\<close>.\<close>

theorem with_signature_keeps_signing_hash:
  "tx_wf h t \<and> load_tx h t = Some tv \<and> bytes_at h sig = Some s \<longrightarrow>
     (\<exists>q h'. Transaction_WithSignature h t sig = Some (q, h') \<and>
        agree_below (next_addr h) h h' \<and>
        tx_results h' t = tx_results h t \<and>
        (\<exists>tv'. load_tx h' q = Some tv' \<and> Signature (body tv') = s \<and>
           same_unsigned_fields tv' tv \<and>
           Transaction_SigningHash X tv' = Transaction_SigningHash X tv))"
proof (intro impI, elim conjE)
  assume wf: "tx_wf h t" and tv: "load_tx h t = Some tv" and s: "bytes_at h sig = Some s"
  from wf obtain tx where tx: "t < next_addr h" "objects h t = Some (TxObject tx)"
    "allocated h (GasPrice (body tx))" "allocated h (Signature (body tx))"
    by (rule tx_wf_cases)
  from tv tx(2) have g: "bigint_at h (GasPrice (body tx)) = Some (GasPrice (body tv))"
    and fields: "Clauses (body tv) = Clauses (body tx)" "Gas (body tv) = Gas (body tx)"
      "Nonce (body tv) = Nonce (body tx)" "TimeBarrier (body tv) = TimeBarrier (body tx)"
      "DependsOn (body tv) = DependsOn (body tx)"
    by (auto simp: load_tx_def split: option.splits)
  from with_signature_result [OF tx(2) s] obtain sr h' where
    r: "Transaction_WithSignature h t sig = Some (next_addr h, h')"
    and o: "objects h' (next_addr h)
       = Some (TxObject \<lparr>body = (body tx)\<lparr>Signature := sr\<rparr>, cache_hash = None\<rparr>)"
    and b: "bytes_at h' sr = Some s"
    and a: "agree_below (next_addr h) h h'"
    by blast
  have g': "bigint_at h' (GasPrice (body tx)) = Some (GasPrice (body tv))"
    using bigint_at_agree [OF a, of "GasPrice (body tx)"] tx(3) g by (simp add: allocated_def)
  define tv' :: Tx where "tv' = \<lparr>body = \<lparr>Clauses = Clauses (body tx),
      GasPrice = GasPrice (body tv), Gas = Gas (body tx), Nonce = Nonce (body tx),
      TimeBarrier = TimeBarrier (body tx), DependsOn = DependsOn (body tx), Signature = s\<rparr>,
      cache_hash = None\<rparr>"
  have l: "load_tx h' (next_addr h) = Some tv'"
    by (simp add: load_tx_def o g' b tv'_def)
  have same: "same_unsigned_fields tv' tv"
    by (simp add: same_unsigned_fields_def tv'_def fields)
  then have "Transaction_SigningHash X tv' = Transaction_SigningHash X tv"
    by (simp add: same_unsigned_fields_def Transaction_SigningHash_def signing_rlp_def)
  moreover have "tx_results h' t = tx_results h t"
    using wf a by (rule tx_results_agree)
  moreover have "Signature (body tv') = s"
    by (simp add: tv'_def)
  ultimately show "\<exists>q h'. Transaction_WithSignature h t sig = Some (q, h') \<and>
        agree_below (next_addr h) h h' \<and>
        tx_results h' t = tx_results h t \<and>
        (\<exists>tv'. load_tx h' q = Some tv' \<and> Signature (body tv') = s \<and>
           same_unsigned_fields tv' tv \<and>
           Transaction_SigningHash X tv' = Transaction_SigningHash X tv)"
    using r a l same by blast
qed

theorem with_signature_keeps_signing_hash_witness:
  "\<exists>h' tv'. Transaction_WithSignature example_store 2 (Some 5) = Some (6, h')
      \<and> load_tx h' 2 = Some signed_tx
      \<and> load_tx h' 6 = Some tv' \<and> Signature (body tv') = [4, 5]
      \<and> Transaction_SigningHash example_deps tv' = Transaction_SigningHash example_deps signed_tx"
proof -
  have s: "bytes_at example_store (Some 5) = Some [4, 5]"
    by (simp add: bytes_at_def example_store_def)
  from with_signature_keeps_signing_hash [of example_store 2 signed_tx "Some 5" "[4, 5]"
      example_deps] example_store_wf(1) example_store_load(1) s
  obtain q h' tv' where r: "Transaction_WithSignature example_store 2 (Some 5) = Some (q, h')"
    "tx_results h' 2 = tx_results example_store 2"
    "load_tx h' q = Some tv'" "Signature (body tv') = [4, 5]"
    "Transaction_SigningHash example_deps tv' = Transaction_SigningHash example_deps signed_tx"
    by blast
  have "fst (the (Transaction_WithSignature example_store 2 (Some 5))) = 6"
    by (simp add: Transaction_WithSignature_def example_store_def bytes_at_def alloc_def
        split_beta Let_def)
  with r(1) have q: "q = 6" by simp
  from r(2) have "load_tx h' 2 = Some signed_tx"
    by (simp add: tx_results_def example_store_load)
  with r q show ?thesis by blast
qed

section \<open>The size of a block in the store\<close>
















end
